theory Spec2Isabelle
  imports Main
begin

section \<open>Regular expressions of the terminal rules\<close>

text \<open>
  The terminals of \<^verbatim>\<open>grammar.js\<close> are JavaScript regular-expression literals built from
  character classes, concatenation, \<^verbatim>\<open>+\<close>, \<^verbatim>\<open>*\<close> and \<^verbatim>\<open>?\<close>. A character class is kept as
  the list of its characters (\<^verbatim>\<open>[a-z]\<close> is written out), a negated class as the list of
  the excluded ones. Characters are bytes: \<^verbatim>\<open>\d\<close> is the ten ASCII digits, \<^verbatim>\<open>\s\<close> the six
  ASCII white-space characters, and \<^verbatim>\<open>.\<close> any character but the line feed.
\<close>

datatype rexp =
    Nul
  | Eps
  | Cls "char list"
  | NCls "char list"
  | Seq rexp rexp
  | Alt rexp rexp
  | Star rexp

definition Plus :: "rexp \<Rightarrow> rexp" where
  "Plus r = Seq r (Star r)"

definition Opt :: "rexp \<Rightarrow> rexp" where
  "Opt r = Alt r Eps"

fun seqs :: "rexp list \<Rightarrow> rexp" where
  "seqs [] = Eps"
| "seqs [r] = r"
| "seqs (r # rs) = Seq r (seqs rs)"

fun nullable :: "rexp \<Rightarrow> bool" where
  "nullable Nul = False"
| "nullable Eps = True"
| "nullable (Cls cs) = False"
| "nullable (NCls cs) = False"
| "nullable (Seq r s) = (nullable r \<and> nullable s)"
| "nullable (Alt r s) = (nullable r \<or> nullable s)"
| "nullable (Star r) = True"

fun deriv :: "char \<Rightarrow> rexp \<Rightarrow> rexp" where
  "deriv c Nul = Nul"
| "deriv c Eps = Nul"
| "deriv c (Cls cs) = (if c \<in> set cs then Eps else Nul)"
| "deriv c (NCls cs) = (if c \<in> set cs then Nul else Eps)"
| "deriv c (Seq r s) =
     (if nullable r then Alt (Seq (deriv c r) s) (deriv c s) else Seq (deriv c r) s)"
| "deriv c (Alt r s) = Alt (deriv c r) (deriv c s)"
| "deriv c (Star r) = Seq (deriv c r) (Star r)"

text \<open>\<open>matches r s\<close>: the whole string \<open>s\<close> is one match of \<open>r\<close>.\<close>

fun matches :: "rexp \<Rightarrow> string \<Rightarrow> bool" where
  "matches r [] = nullable r"
| "matches r (c # s) = matches (deriv c r) s"

text \<open>A regular expression that visibly matches nothing.\<close>

fun void :: "rexp \<Rightarrow> bool" where
  "void Nul = True"
| "void Eps = False"
| "void (Cls cs) = (cs = [])"
| "void (NCls cs) = False"
| "void (Seq r s) = (void r \<or> void s)"
| "void (Alt r s) = (void r \<and> void s)"
| "void (Star r) = False"

text \<open>
  The set of strings a regular expression stands for; \<open>matches\<close> decides membership
  (lemma \<open>matches_lang\<close>).
\<close>

definition conc :: "string set \<Rightarrow> string set \<Rightarrow> string set" where
  "conc A B = {u @ v | u v. u \<in> A \<and> v \<in> B}"

inductive_set star :: "string set \<Rightarrow> string set" for A :: "string set" where
  star_nil: "[] \<in> star A"
| star_app: "u \<in> A \<Longrightarrow> v \<in> star A \<Longrightarrow> u @ v \<in> star A"

fun lang :: "rexp \<Rightarrow> string set" where
  "lang Nul = {}"
| "lang Eps = {[]}"
| "lang (Cls cs) = {[c] | c. c \<in> set cs}"
| "lang (NCls cs) = {[c] | c. c \<notin> set cs}"
| "lang (Seq r s) = conc (lang r) (lang s)"
| "lang (Alt r s) = lang r \<union> lang s"
| "lang (Star r) = star (lang r)"

text \<open>\<open>over cs r\<close>: every character class of \<open>r\<close> lies within \<open>cs\<close>.\<close>

fun over :: "char list \<Rightarrow> rexp \<Rightarrow> bool" where
  "over cs Nul = True"
| "over cs Eps = True"
| "over cs (Cls ds) = (set ds \<subseteq> set cs)"
| "over cs (NCls ds) = False"
| "over cs (Seq r s) = (over cs r \<and> over cs s)"
| "over cs (Alt r s) = (over cs r \<and> over cs s)"
| "over cs (Star r) = over cs r"

section \<open>Terminals\<close>

definition digit :: rexp where
  "digit = Cls ''0123456789''"

definition letters :: string where
  "letters = ''abcdefghijklmnopqrstuvwxyzABCDEFGHIJKLMNOPQRSTUVWXYZ''"

text \<open>\<^verbatim>\<open>extras: /\s/\<close>: the white-space characters.\<close>

definition whitespace :: "char list" where
  "whitespace = [CHR '' '', CHR 0x09, CHR 0x0A, CHR 0x0B, CHR 0x0C, CHR 0x0D]"

text \<open>\<^verbatim>\<open>comment: /'[^\r\n]*/\<close>\<close>

definition comment_re :: rexp where
  "comment_re = seqs [Cls [CHR 0x27], Star (NCls [CHR 0x0D, CHR 0x0A])]"

text \<open>\<^verbatim>\<open>identifier: /[a-zA-Z_][a-zA-Z0-9_]*/\<close>\<close>

definition identifier_re :: rexp where
  "identifier_re = seqs [Cls (letters @ ''_''), Star (Cls (letters @ ''0123456789_''))]"

definition is_identifier :: "string \<Rightarrow> bool" where
  "is_identifier s = matches identifier_re s"

text \<open>The ten alternatives of \<^verbatim>\<open>number\<close>, in the order of the source.\<close>

definition number_res :: "rexp list" where
  "number_res =
    [ seqs [Cls ''&'', Cls ''bB'', Plus (Cls ''01'')],
      seqs [Cls ''&'', Cls ''hH'', Plus (Cls ''0123456789abcdefABCDEF'')],
      Plus digit,
      seqs [Plus digit, Cls ''.'', Star digit],
      seqs [Cls ''.'', Plus digit],
      seqs [Plus digit, Cls ''eE'', Opt (Cls ''+-''), Plus digit],
      seqs [Plus digit, Cls ''.'', Star digit, Cls ''eE'', Opt (Cls ''+-''), Plus digit],
      seqs [Cls ''.'', Plus digit, Cls ''eE'', Opt (Cls ''+-''), Plus digit],
      seqs [Plus digit, Cls ''LlUuFf''],
      seqs [Plus digit, Cls ''.'', Star digit, Cls ''LlUuFf''] ]"

definition is_number :: "string \<Rightarrow> bool" where
  "is_number s = list_ex (\<lambda>r. matches r s) number_res"

text \<open>The two alternatives of the content of \<^verbatim>\<open>string\<close>: \<^verbatim>\<open>/[^"\\]/\<close> and \<^verbatim>\<open>/\\./\<close>.\<close>

definition string_piece_res :: "rexp list" where
  "string_piece_res = [NCls [CHR 0x22, CHR 0x5C], seqs [Cls [CHR 0x5C], NCls [CHR 0x0A]]]"

definition is_string_piece :: "string \<Rightarrow> bool" where
  "is_string_piece s = list_ex (\<lambda>r. matches r s) string_piece_res"

text \<open>\<^verbatim>\<open>boolean\<close> and \<^verbatim>\<open>type\<close>: choices of string literals.\<close>

definition boolean_words :: "string list" where
  "boolean_words = [''True'', ''False'', ''TRUE'', ''FALSE'', ''true'', ''false'']"

definition is_boolean :: "string \<Rightarrow> bool" where
  "is_boolean s = (s \<in> set boolean_words)"

definition type_names :: "string list" where
  "type_names =
    [''Boolean'', ''Float'', ''Double'', ''Long'', ''String'',
     ''FP2'', ''IEEE4'', ''IEEE8'', ''UINT1'', ''UINT2'', ''UINT4'',
     ''Bool8'', ''NSEC'']"

definition is_type :: "string \<Rightarrow> bool" where
  "is_type s = (s \<in> set type_names)"

text \<open>
  The keywords: the string literals of the rules that are words. A string literal of the
  grammar matches its own spelling and nothing else.
\<close>

definition keyword_literals :: "string list" where
  "keyword_literals =
    [''BeginProg'', ''EndProg'', ''Function'', ''EndFunction'', ''Sub'', ''EndSub'',
     ''Dim'', ''Public'', ''As'', ''Const'', ''ConstTable'', ''EndConstTable'',
     ''If'', ''Then'', ''ElseIf'', ''Else If'', ''Else'', ''EndIf'',
     ''For'', ''To'', ''Step'', ''Next'', ''While'', ''Wend'', ''Do'', ''Loop'', ''Until'',
     ''Select'', ''Case'', ''Is'', ''EndSelect'',
     ''Scan'', ''NextScan'', ''SubScan'', ''NextSubScan'', ''SlowSequence'', ''EndSequence'',
     ''DisplayMenu'', ''EndMenu'', ''SubMenu'', ''EndSubMenu'', ''MenuItem'',
     ''DataTable'', ''EndTable'', ''CallTable'',
     ''#If'', ''#Else'', ''#EndIf'', ''#IfDef'', ''#UnDef'', ''Include'',
     ''MOD'', ''INTDV'', ''AND'', ''OR'', ''XOR'', ''IMP'', ''NOT'']"

definition is_keyword :: "string \<Rightarrow> bool" where
  "is_keyword s = (s \<in> set keyword_literals)"

text \<open>Two spellings that differ in the case of their letters only.\<close>

definition lower :: "char \<Rightarrow> char" where
  "lower c =
     (case map_of (zip ''ABCDEFGHIJKLMNOPQRSTUVWXYZ'' ''abcdefghijklmnopqrstuvwxyz'') c of
        None \<Rightarrow> c
      | Some d \<Rightarrow> d)"

definition case_variant :: "string \<Rightarrow> string \<Rightarrow> bool" where
  "case_variant s k = (map lower s = map lower k)"

section \<open>Syntax trees\<close>

text \<open>
  One constructor per alternative of a rule. The children that the rule takes from a
  terminal keep the matched text; \<open>yield\<close> gives back the sequence of lexemes of a tree,
  in source order. A tree is well-formed (\<open>wf\<close>) when the grammar derives it, every
  terminal matches its regular expression, and the declared precedences and
  associativities admit it. A text has a parse without error exactly when it is the yield
  of a well-formed tree; the trees with \<^verbatim>\<open>ERROR\<close> or \<^verbatim>\<open>MISSING\<close> nodes that the parser runtime
  returns for any other text are not described by the grammar and are not modelled.
\<close>

subsection \<open>Expressions\<close>

datatype expr =
    Identifier string
  | Number string
  | StringLit "string list"
  | Boolean string
  | Binary expr string expr
  | Unary string expr
  | Paren expr
  | Call string "expr list"

text \<open>\<^verbatim>\<open>seq(x, repeat(seq(',', x)))\<close>\<close>

fun commas :: "string list list \<Rightarrow> string list" where
  "commas [] = []"
| "commas [x] = x"
| "commas (x # xs) = x @ '','' # commas xs"

definition yield_string :: "string list \<Rightarrow> string list" where
  "yield_string ps = [CHR 0x22] # ps @ [[CHR 0x22]]"

fun yield_expr :: "expr \<Rightarrow> string list" where
  "yield_expr (Identifier s) = [s]"
| "yield_expr (Number s) = [s]"
| "yield_expr (StringLit ps) = yield_string ps"
| "yield_expr (Boolean s) = [s]"
| "yield_expr (Binary l op r) = yield_expr l @ op # yield_expr r"
| "yield_expr (Unary op e) = op # yield_expr e"
| "yield_expr (Paren e) = ''('' # yield_expr e @ ['')'']"
| "yield_expr (Call f args) = f # ''('' # commas (map yield_expr args) @ ['')'']"

text \<open>
  The seven \<^verbatim>\<open>prec.left(n, ...)\<close> alternatives of \<^verbatim>\<open>binary_expression\<close> and the
  \<^verbatim>\<open>prec(8, ...)\<close> alternatives of \<^verbatim>\<open>unary_expression\<close>.
\<close>

definition binary_levels :: "(nat \<times> string list) list" where
  "binary_levels =
    [ (1, [''+'', ''-'']),
      (2, [''*'', ''/'', ''MOD'', ''INTDV'']),
      (3, [''^'']),
      (4, [''='', ''<>'', ''<'', ''>'', ''<='', ''>='']),
      (5, [''AND'', ''OR'', ''XOR'', ''IMP'']),
      (6, [''&'', ''|'']),
      (7, [''>>'', ''<<'']) ]"

definition binary_prec :: "string \<Rightarrow> nat option" where
  "binary_prec op = map_option fst (find (\<lambda>(p, ops). op \<in> set ops) binary_levels)"

definition unary_ops :: "string list" where
  "unary_ops = [''-'', ''+'', ''NOT'', ''!'']"

definition unary_prec :: nat where
  "unary_prec = 8"

text \<open>The precedence of the rule at the root of an operand, when it is a binary expression.\<close>

fun top_prec :: "expr \<Rightarrow> nat option" where
  "top_prec (Binary l op r) = binary_prec op"
| "top_prec e = None"

text \<open>
  How the declared precedences settle the conflicts of the ambiguous rule
  \<^verbatim>\<open>_expression op _expression\<close>: a rule of precedence \<open>p\<close> is reduced before an operator of
  lower precedence is read, and, being left-associative, also before one of the same
  precedence. So the left operand of a rule of precedence \<open>p\<close> is never a binary expression
  of lower precedence, and the operand to the right of an operator never one of the same or
  lower precedence.
\<close>

definition left_operand_ok :: "nat \<Rightarrow> expr \<Rightarrow> bool" where
  "left_operand_ok p l = (case top_prec l of None \<Rightarrow> True | Some q \<Rightarrow> p \<le> q)"

definition right_operand_ok :: "nat \<Rightarrow> expr \<Rightarrow> bool" where
  "right_operand_ok p r = (case top_prec r of None \<Rightarrow> True | Some q \<Rightarrow> p < q)"

text \<open>
  The word literals that can start an \<^verbatim>\<open>_expression\<close>: the spellings of \<^verbatim>\<open>boolean\<close> and the
  unary \<^verbatim>\<open>NOT\<close>. Where an expression may start they are expected besides \<^verbatim>\<open>identifier\<close>, and
  a lexeme that a string literal and a regular expression both match is the string
  literal: an identifier inside an expression is none of them.
\<close>

definition expression_keywords :: "string list" where
  "expression_keywords = boolean_words @ [''NOT'']"

text \<open>\<open>wf_expr e\<close>: \<open>e\<close> is a tree of \<^verbatim>\<open>_expression\<close> that the generated parser can build.\<close>

fun wf_expr :: "expr \<Rightarrow> bool" where
  "wf_expr (Identifier s) = (is_identifier s \<and> s \<notin> set expression_keywords)"
| "wf_expr (Number s) = is_number s"
| "wf_expr (StringLit ps) = list_all is_string_piece ps"
| "wf_expr (Boolean s) = is_boolean s"
| "wf_expr (Binary l op r) =
     (case binary_prec op of
        None \<Rightarrow> False
      | Some p \<Rightarrow> wf_expr l \<and> wf_expr r \<and> left_operand_ok p l \<and> right_operand_ok p r)"
| "wf_expr (Unary op e) = (op \<in> set unary_ops \<and> wf_expr e \<and> right_operand_ok unary_prec e)"
| "wf_expr (Paren e) = wf_expr e"
| "wf_expr (Call f args) =
     (is_identifier f \<and> f \<notin> set expression_keywords \<and> list_all wf_expr args)"

text \<open>\<open>parses_expr ls e\<close>: \<open>e\<close> is a parse of the lexemes \<open>ls\<close> as an \<^verbatim>\<open>_expression\<close>.\<close>

definition parses_expr :: "string list \<Rightarrow> expr \<Rightarrow> bool" where
  "parses_expr ls e = (wf_expr e \<and> yield_expr e = ls)"

text \<open>The nodes of an expression tree, the root first.\<close>

fun subexprs :: "expr \<Rightarrow> expr list" where
  "subexprs (Binary l op r) = Binary l op r # subexprs l @ subexprs r"
| "subexprs (Unary op e) = Unary op e # subexprs e"
| "subexprs (Paren e) = Paren e # subexprs e"
| "subexprs (Call f args) = Call f args # concat (map subexprs args)"
| "subexprs e = [e]"

text \<open>The precedence numbers of the operator rules, in the order of the source.\<close>

definition precedence_levels :: "nat list" where
  "precedence_levels = map fst binary_levels @ [unary_prec]"

subsection \<open>Statements\<close>

datatype loop_tail = LoopUntil expr | LoopWhile expr | LoopBare

datatype menu_item = MenuItem "string list" string

datatype stmt =
    Comment string
  | BeginProg "stmt list"
  | FunctionDef string "string list option" "stmt list"
  | SubDef string "string list option" "stmt list"
  | VariableDeclaration string string "string option"
  | Const string expr
  | ConstTable "(string \<times> expr) list"
  | Assignment string string expr
  | FunctionCall string "expr list"
  | IfStatement expr "stmt list" "elseif list" "stmt list option"
  | ForLoop string expr expr "expr option" "stmt list" "string option"
  | WhileLoop expr "stmt list"
  | DoLoop "stmt list" loop_tail
  | SelectStatement expr "case_clause list"
  | Scan expr string expr expr "stmt list"
  | SubScan expr string "stmt list"
  | SlowSequence "stmt list"
  | DisplayMenu "menu_item list"
  | SubMenu string "menu_item list"
  | DataTable string string expr "stmt list"
  | CallTable string
  | HashIf expr "stmt list" "stmt list option"
  | HashIfDef string "stmt list" "stmt list option"
  | HashUnDef string
  | Include "string list"
and elseif = ElseIf string expr "stmt list"
and case_clause = CaseValue expr "stmt list" | CaseIs expr "stmt list" | CaseElse "stmt list"

text \<open>
  The keywords that start the alternatives of \<^verbatim>\<open>_statement\<close>. Where a statement may start,
  all of them are expected besides \<^verbatim>\<open>identifier\<close>, and a lexeme that a string literal and
  a regular expression both match is the string literal: the identifier that starts an
  \<^verbatim>\<open>assignment\<close> or a \<^verbatim>\<open>function_call\<close> statement is none of these keywords. The same
  holds after \<^verbatim>\<open>Next\<close>, where a statement may start as well: the identifier taken as
  \<^verbatim>\<open>variable_end\<close> is none of these keywords. (Inside a block the keywords that close or
  continue the block are expected too; that further restriction depends on the enclosing
  block and is not part of \<open>wf_stmt\<close>, so the theorems about identifiers assume an
  identifier that is no keyword at all where this matters.)
\<close>

definition statement_keywords :: "string list" where
  "statement_keywords =
    [''BeginProg'', ''Function'', ''Sub'', ''Dim'', ''Public'', ''Const'', ''ConstTable'',
     ''If'', ''For'', ''While'', ''Do'', ''Select'', ''Scan'', ''SubScan'', ''SlowSequence'',
     ''DisplayMenu'', ''SubMenu'', ''DataTable'', ''CallTable'',
     ''#If'', ''#IfDef'', ''#UnDef'', ''Include'']"

definition assignment_ops :: "string list" where
  "assignment_ops = [''='', ''*='', ''+='', ''-='', ''/='', [CHR 0x5C, CHR ''=''], ''^='', ''&='']"

text \<open>\<^verbatim>\<open>parameter_list\<close>, under \<^verbatim>\<open>optional\<close>.\<close>

fun yield_params :: "string list option \<Rightarrow> string list" where
  "yield_params None = []"
| "yield_params (Some ps) = ''('' # commas (map (\<lambda>p. [p]) ps) @ ['')'']"

fun yield_loop_tail :: "loop_tail \<Rightarrow> string list" where
  "yield_loop_tail (LoopUntil e) = ''Loop'' # ''Until'' # yield_expr e"
| "yield_loop_tail (LoopWhile e) = ''Loop'' # ''While'' # yield_expr e"
| "yield_loop_tail LoopBare = [''Loop'']"

fun yield_menu_item :: "menu_item \<Rightarrow> string list" where
  "yield_menu_item (MenuItem s x) = ''MenuItem'' # yield_string s @ [x]"

fun yield_opt :: "string list option \<Rightarrow> string list" where
  "yield_opt None = []"
| "yield_opt (Some ls) = ls"

fun yield_stmt :: "stmt \<Rightarrow> string list"
  and yield_elseif :: "elseif \<Rightarrow> string list"
  and yield_case :: "case_clause \<Rightarrow> string list" where
  "yield_stmt (Comment s) = [s]"
| "yield_stmt (BeginProg body) = ''BeginProg'' # concat (map yield_stmt body) @ [''EndProg'']"
| "yield_stmt (FunctionDef f ps body) =
     ''Function'' # f # yield_params ps @ concat (map yield_stmt body) @ [''EndFunction'']"
| "yield_stmt (SubDef f ps body) =
     ''Sub'' # f # yield_params ps @ concat (map yield_stmt body) @ [''EndSub'']"
| "yield_stmt (VariableDeclaration kw x ty) =
     kw # x # (case ty of None \<Rightarrow> [] | Some t \<Rightarrow> [''As'', t])"
| "yield_stmt (Const x e) = ''Const'' # x # ''='' # yield_expr e"
| "yield_stmt (ConstTable es) =
     ''ConstTable'' # concat (map (\<lambda>(x, e). x # ''='' # yield_expr e) es) @ [''EndConstTable'']"
| "yield_stmt (Assignment x op e) = x # op # yield_expr e"
| "yield_stmt (FunctionCall f args) = f # ''('' # commas (map yield_expr args) @ ['')'']"
| "yield_stmt (IfStatement c body eifs els) =
     ''If'' # yield_expr c @ ''Then'' # concat (map yield_stmt body)
       @ concat (map yield_elseif eifs)
       @ (case els of None \<Rightarrow> [] | Some b \<Rightarrow> ''Else'' # concat (map yield_stmt b))
       @ [''EndIf'']"
| "yield_stmt (ForLoop v a b st body v') =
     ''For'' # v # ''='' # yield_expr a @ ''To'' # yield_expr b
       @ (case st of None \<Rightarrow> [] | Some s \<Rightarrow> ''Step'' # yield_expr s)
       @ concat (map yield_stmt body) @ ''Next''
       # (case v' of None \<Rightarrow> [] | Some x \<Rightarrow> [x])"
| "yield_stmt (WhileLoop c body) =
     ''While'' # yield_expr c @ concat (map yield_stmt body) @ [''Wend'']"
| "yield_stmt (DoLoop body t) = ''Do'' # concat (map yield_stmt body) @ yield_loop_tail t"
| "yield_stmt (SelectStatement e cs) =
     ''Select'' # ''Case'' # yield_expr e @ concat (map yield_case cs) @ [''EndSelect'']"
| "yield_stmt (Scan i u b c body) =
     ''Scan'' # ''('' # yield_expr i @ '','' # u # '','' # yield_expr b @ '','' # yield_expr c
       @ '')'' # concat (map yield_stmt body) @ [''NextScan'']"
| "yield_stmt (SubScan i u body) =
     ''SubScan'' # ''('' # yield_expr i @ '','' # u # '')'' # concat (map yield_stmt body)
       @ [''NextSubScan'']"
| "yield_stmt (SlowSequence body) =
     ''SlowSequence'' # concat (map yield_stmt body) @ [''EndSequence'']"
| "yield_stmt (DisplayMenu items) =
     ''DisplayMenu'' # concat (map yield_menu_item items) @ [''EndMenu'']"
| "yield_stmt (SubMenu x items) =
     ''SubMenu'' # x # concat (map yield_menu_item items) @ [''EndSubMenu'']"
| "yield_stmt (DataTable x b e body) =
     ''DataTable'' # x # b # yield_expr e @ concat (map yield_stmt body) @ [''EndTable'']"
| "yield_stmt (CallTable x) = [''CallTable'', x]"
| "yield_stmt (HashIf c body els) =
     ''#If'' # yield_expr c @ concat (map yield_stmt body)
       @ (case els of None \<Rightarrow> [] | Some b \<Rightarrow> ''#Else'' # concat (map yield_stmt b))
       @ [''#EndIf'']"
| "yield_stmt (HashIfDef x body els) =
     ''#IfDef'' # x # concat (map yield_stmt body)
       @ (case els of None \<Rightarrow> [] | Some b \<Rightarrow> ''#Else'' # concat (map yield_stmt b))
       @ [''#EndIf'']"
| "yield_stmt (HashUnDef x) = [''#UnDef'', x]"
| "yield_stmt (Include s) = ''Include'' # yield_string s"
| "yield_elseif (ElseIf kw c body) = kw # yield_expr c @ ''Then'' # concat (map yield_stmt body)"
| "yield_case (CaseValue e body) = ''Case'' # yield_expr e @ concat (map yield_stmt body)"
| "yield_case (CaseIs e body) = ''Case'' # ''Is'' # yield_expr e @ concat (map yield_stmt body)"
| "yield_case (CaseElse body) = ''Case'' # ''Else'' # concat (map yield_stmt body)"

text \<open>
  \<^verbatim>\<open>for_loop\<close> and \<^verbatim>\<open>do_loop\<close> are \<^verbatim>\<open>prec.right\<close>: where the rule could end or go on, it
  goes on. So a \<^verbatim>\<open>Next\<close> followed by an identifier takes it as \<^verbatim>\<open>variable_end\<close>, and a
  \<^verbatim>\<open>Loop\<close> followed by \<^verbatim>\<open>While\<close> takes it as its condition: in a sequence of statements
  the first of two neighbours cannot be such a loop left open before such a lexeme.
\<close>

definition goes_on :: "stmt \<Rightarrow> stmt \<Rightarrow> bool" where
  "goes_on s t =
     (case s of
        ForLoop v a b st body None \<Rightarrow>
          (case t of Assignment x op e \<Rightarrow> True | FunctionCall f args \<Rightarrow> True | _ \<Rightarrow> False)
      | DoLoop body LoopBare \<Rightarrow> (case t of WhileLoop c body' \<Rightarrow> True | _ \<Rightarrow> False)
      | _ \<Rightarrow> False)"

fun seq_ok :: "stmt list \<Rightarrow> bool" where
  "seq_ok (s # t # ss) = (\<not> goes_on s t \<and> seq_ok (t # ss))"
| "seq_ok ss = True"

fun wf_params :: "string list option \<Rightarrow> bool" where
  "wf_params None = True"
| "wf_params (Some ps) = list_all is_identifier ps"

fun wf_loop_tail :: "loop_tail \<Rightarrow> bool" where
  "wf_loop_tail (LoopUntil e) = wf_expr e"
| "wf_loop_tail (LoopWhile e) = wf_expr e"
| "wf_loop_tail LoopBare = True"

fun wf_menu_item :: "menu_item \<Rightarrow> bool" where
  "wf_menu_item (MenuItem s x) = (list_all is_string_piece s \<and> is_identifier x)"

text \<open>\<open>wf_stmt t\<close>: \<open>t\<close> is a tree of \<^verbatim>\<open>_statement\<close> that the generated parser can build.\<close>

fun wf_stmt :: "stmt \<Rightarrow> bool"
  and wf_elseif :: "elseif \<Rightarrow> bool"
  and wf_case :: "case_clause \<Rightarrow> bool" where
  "wf_stmt (Comment s) = matches comment_re s"
| "wf_stmt (BeginProg body) = (list_all wf_stmt body \<and> seq_ok body)"
| "wf_stmt (FunctionDef f ps body) =
     (is_identifier f \<and> wf_params ps \<and> list_all wf_stmt body \<and> seq_ok body)"
| "wf_stmt (SubDef f ps body) =
     (is_identifier f \<and> wf_params ps \<and> list_all wf_stmt body \<and> seq_ok body)"
| "wf_stmt (VariableDeclaration kw x ty) =
     (kw \<in> set [''Dim'', ''Public''] \<and> is_identifier x
      \<and> (case ty of None \<Rightarrow> True | Some t \<Rightarrow> is_type t))"
| "wf_stmt (Const x e) = (is_identifier x \<and> wf_expr e)"
| "wf_stmt (ConstTable es) = list_all (\<lambda>(x, e). is_identifier x \<and> wf_expr e) es"
| "wf_stmt (Assignment x op e) =
     (is_identifier x \<and> x \<notin> set statement_keywords \<and> op \<in> set assignment_ops \<and> wf_expr e)"
| "wf_stmt (FunctionCall f args) =
     (is_identifier f \<and> f \<notin> set statement_keywords \<and> list_all wf_expr args)"
| "wf_stmt (IfStatement c body eifs els) =
     (wf_expr c \<and> list_all wf_stmt body \<and> seq_ok body \<and> list_all wf_elseif eifs
      \<and> (case els of None \<Rightarrow> True | Some b \<Rightarrow> list_all wf_stmt b \<and> seq_ok b))"
| "wf_stmt (ForLoop v a b st body v') =
     (is_identifier v \<and> wf_expr a \<and> wf_expr b
      \<and> (case st of None \<Rightarrow> True | Some s \<Rightarrow> wf_expr s)
      \<and> list_all wf_stmt body \<and> seq_ok body
      \<and> (case v' of None \<Rightarrow> True
          | Some x \<Rightarrow> is_identifier x \<and> x \<notin> set statement_keywords))"
| "wf_stmt (WhileLoop c body) = (wf_expr c \<and> list_all wf_stmt body \<and> seq_ok body)"
| "wf_stmt (DoLoop body t) = (list_all wf_stmt body \<and> seq_ok body \<and> wf_loop_tail t)"
| "wf_stmt (SelectStatement e cs) = (wf_expr e \<and> list_all wf_case cs)"
| "wf_stmt (Scan i u b c body) =
     (wf_expr i \<and> is_identifier u \<and> wf_expr b \<and> wf_expr c
      \<and> list_all wf_stmt body \<and> seq_ok body)"
| "wf_stmt (SubScan i u body) =
     (wf_expr i \<and> is_identifier u \<and> list_all wf_stmt body \<and> seq_ok body)"
| "wf_stmt (SlowSequence body) = (list_all wf_stmt body \<and> seq_ok body)"
| "wf_stmt (DisplayMenu items) = list_all wf_menu_item items"
| "wf_stmt (SubMenu x items) = (is_identifier x \<and> list_all wf_menu_item items)"
| "wf_stmt (DataTable x b e body) =
     (is_identifier x \<and> is_boolean b \<and> wf_expr e \<and> list_all wf_stmt body \<and> seq_ok body)"
| "wf_stmt (CallTable x) = is_identifier x"
| "wf_stmt (HashIf c body els) =
     (wf_expr c \<and> list_all wf_stmt body \<and> seq_ok body
      \<and> (case els of None \<Rightarrow> True | Some b \<Rightarrow> list_all wf_stmt b \<and> seq_ok b))"
| "wf_stmt (HashIfDef x body els) =
     (is_identifier x \<and> list_all wf_stmt body \<and> seq_ok body
      \<and> (case els of None \<Rightarrow> True | Some b \<Rightarrow> list_all wf_stmt b \<and> seq_ok b))"
| "wf_stmt (HashUnDef x) = is_identifier x"
| "wf_stmt (Include s) = list_all is_string_piece s"
| "wf_elseif (ElseIf kw c body) =
     (kw \<in> set [''ElseIf'', ''Else If''] \<and> wf_expr c \<and> list_all wf_stmt body \<and> seq_ok body)"
| "wf_case (CaseValue e body) = (wf_expr e \<and> list_all wf_stmt body \<and> seq_ok body)"
| "wf_case (CaseIs e body) = (wf_expr e \<and> list_all wf_stmt body \<and> seq_ok body)"
| "wf_case (CaseElse body) = (list_all wf_stmt body \<and> seq_ok body)"

text \<open>\<open>parses_stmt ls t\<close>: \<open>t\<close> is a parse of the lexemes \<open>ls\<close> as one \<^verbatim>\<open>_statement\<close>, without error.\<close>

definition parses_stmt :: "string list \<Rightarrow> stmt \<Rightarrow> bool" where
  "parses_stmt ls t = (wf_stmt t \<and> yield_stmt t = ls)"

text \<open>\<^verbatim>\<open>source_file: repeat($._statement)\<close>\<close>

definition yield_source_file :: "stmt list \<Rightarrow> string list" where
  "yield_source_file ts = concat (map yield_stmt ts)"

definition wf_source_file :: "stmt list \<Rightarrow> bool" where
  "wf_source_file ts = (list_all wf_stmt ts \<and> seq_ok ts)"

subsection \<open>Identifiers that are not spelled like a keyword\<close>

text \<open>
  Which lexeme is an identifier and which a keyword is decided by the lexer from what the
  parser expects at the place: a spelling of a keyword is an identifier wherever the
  keyword is not expected. \<open>wf_expr\<close> and \<open>wf_stmt\<close> have this rule where an expression or a
  statement starts and after \<^verbatim>\<open>Next\<close>, not for the keywords that close or continue the
  enclosing block. In a tree whose identifiers are spelled like no string literal of the
  grammar that is a word the question does not arise: \<open>plain_stmt\<close>.
\<close>

definition reserved_words :: "string list" where
  "reserved_words = keyword_literals @ boolean_words @ type_names"

fun identifiers_expr :: "expr \<Rightarrow> string list" where
  "identifiers_expr (Identifier s) = [s]"
| "identifiers_expr (Binary l op r) = identifiers_expr l @ identifiers_expr r"
| "identifiers_expr (Unary op e) = identifiers_expr e"
| "identifiers_expr (Paren e) = identifiers_expr e"
| "identifiers_expr (Call f args) = f # concat (map identifiers_expr args)"
| "identifiers_expr e = []"

fun identifiers_loop_tail :: "loop_tail \<Rightarrow> string list" where
  "identifiers_loop_tail (LoopUntil e) = identifiers_expr e"
| "identifiers_loop_tail (LoopWhile e) = identifiers_expr e"
| "identifiers_loop_tail LoopBare = []"

fun identifiers_menu_item :: "menu_item \<Rightarrow> string list" where
  "identifiers_menu_item (MenuItem s x) = [x]"

fun identifiers_stmt :: "stmt \<Rightarrow> string list"
  and identifiers_elseif :: "elseif \<Rightarrow> string list"
  and identifiers_case :: "case_clause \<Rightarrow> string list" where
  "identifiers_stmt (Comment s) = []"
| "identifiers_stmt (BeginProg body) = concat (map identifiers_stmt body)"
| "identifiers_stmt (FunctionDef f ps body) =
     f # (case ps of None \<Rightarrow> [] | Some xs \<Rightarrow> xs) @ concat (map identifiers_stmt body)"
| "identifiers_stmt (SubDef f ps body) =
     f # (case ps of None \<Rightarrow> [] | Some xs \<Rightarrow> xs) @ concat (map identifiers_stmt body)"
| "identifiers_stmt (VariableDeclaration kw x ty) = [x]"
| "identifiers_stmt (Const x e) = x # identifiers_expr e"
| "identifiers_stmt (ConstTable es) = concat (map (\<lambda>(x, e). x # identifiers_expr e) es)"
| "identifiers_stmt (Assignment x op e) = x # identifiers_expr e"
| "identifiers_stmt (FunctionCall f args) = f # concat (map identifiers_expr args)"
| "identifiers_stmt (IfStatement c body eifs els) =
     identifiers_expr c @ concat (map identifiers_stmt body)
       @ concat (map identifiers_elseif eifs)
       @ (case els of None \<Rightarrow> [] | Some b \<Rightarrow> concat (map identifiers_stmt b))"
| "identifiers_stmt (ForLoop v a b st body v') =
     v # identifiers_expr a @ identifiers_expr b
       @ (case st of None \<Rightarrow> [] | Some s \<Rightarrow> identifiers_expr s)
       @ concat (map identifiers_stmt body)
       @ (case v' of None \<Rightarrow> [] | Some x \<Rightarrow> [x])"
| "identifiers_stmt (WhileLoop c body) =
     identifiers_expr c @ concat (map identifiers_stmt body)"
| "identifiers_stmt (DoLoop body t) =
     concat (map identifiers_stmt body) @ identifiers_loop_tail t"
| "identifiers_stmt (SelectStatement e cs) =
     identifiers_expr e @ concat (map identifiers_case cs)"
| "identifiers_stmt (Scan i u b c body) =
     identifiers_expr i @ u # identifiers_expr b @ identifiers_expr c
       @ concat (map identifiers_stmt body)"
| "identifiers_stmt (SubScan i u body) =
     identifiers_expr i @ u # concat (map identifiers_stmt body)"
| "identifiers_stmt (SlowSequence body) = concat (map identifiers_stmt body)"
| "identifiers_stmt (DisplayMenu items) = concat (map identifiers_menu_item items)"
| "identifiers_stmt (SubMenu x items) = x # concat (map identifiers_menu_item items)"
| "identifiers_stmt (DataTable x b e body) =
     x # identifiers_expr e @ concat (map identifiers_stmt body)"
| "identifiers_stmt (CallTable x) = [x]"
| "identifiers_stmt (HashIf c body els) =
     identifiers_expr c @ concat (map identifiers_stmt body)
       @ (case els of None \<Rightarrow> [] | Some b \<Rightarrow> concat (map identifiers_stmt b))"
| "identifiers_stmt (HashIfDef x body els) =
     x # concat (map identifiers_stmt body)
       @ (case els of None \<Rightarrow> [] | Some b \<Rightarrow> concat (map identifiers_stmt b))"
| "identifiers_stmt (HashUnDef x) = [x]"
| "identifiers_stmt (Include s) = []"
| "identifiers_elseif (ElseIf kw c body) =
     identifiers_expr c @ concat (map identifiers_stmt body)"
| "identifiers_case (CaseValue e body) =
     identifiers_expr e @ concat (map identifiers_stmt body)"
| "identifiers_case (CaseIs e body) = identifiers_expr e @ concat (map identifiers_stmt body)"
| "identifiers_case (CaseElse body) = concat (map identifiers_stmt body)"

definition plain_stmt :: "stmt \<Rightarrow> bool" where
  "plain_stmt t = list_all (\<lambda>x. x \<notin> set reserved_words) (identifiers_stmt t)"

section \<open>Source text, extras and spans\<close>

text \<open>
  \<^verbatim>\<open>extras: [/\s/, $.comment]\<close>: before any token the lexer skips white space, which belongs
  to no node, and takes comments, which are nodes. The leaves of the tree are the tokens
  that give a node, each with the span of offsets of its text in the source. The contents
  of a \<^verbatim>\<open>string\<close> are matched by its two inline regular expressions; such tokens are hidden
  and give no node, so the only leaves of a string are its two quotes.

  \<open>scan\<close> lays the lexemes of a tree over a source text the way the lexer cuts it:
  \<^item> white space is skipped before every lexeme, also inside a string, as \<^verbatim>\<open>string\<close> is a
    sequence of tokens and not one token;
  \<^item> an apostrophe starts a comment that runs to the end of the line; it is the next
    lexeme when the tree has a \<^verbatim>\<open>comment\<close> statement there, and an extra otherwise;
  \<^item> a lexeme is the longest match: outside a string no string literal and no regular
    expression of the grammar matches a longer prefix of the remaining text
    (\<open>munch_ok\<close>; whether that longer token is expected at the place is not looked at, so
    some texts the parser accepts are left out);
  \<^item> inside a string a lexeme is a quote, which closes the string, or one match of a
    content regular expression, which is hidden.
\<close>

text \<open>The string literals of the grammar that are not words.\<close>

definition symbol_literals :: "string list" where
  "symbol_literals =
    [''='', ''*='', ''+='', ''-='', ''/='', [CHR 0x5C, CHR ''=''], ''^='', ''&='',
     ''('', '')'', '','', ''+'', ''-'', ''*'', ''/'', ''^'', ''<>'', ''<'', ''>'', ''<='', ''>='',
     ''&'', ''|'', ''>>'', ''<<'', ''!'', [CHR 0x22]]"

definition literals :: "string list" where
  "literals = keyword_literals @ boolean_words @ type_names @ symbol_literals"

text \<open>\<open>starts_with k s\<close>: \<open>k\<close> is a prefix of \<open>s\<close>.\<close>

fun starts_with :: "string \<Rightarrow> string \<Rightarrow> bool" where
  "starts_with [] s = True"
| "starts_with (k # ks) [] = False"
| "starts_with (k # ks) (c # cs) = (k = c \<and> starts_with ks cs)"

text \<open>The length of the longest prefix of a text that a regular expression matches.\<close>

fun longest :: "rexp \<Rightarrow> string \<Rightarrow> nat \<Rightarrow> nat \<Rightarrow> nat" where
  "longest r [] n best = (if nullable r then n else best)"
| "longest r (c # cs) n best = longest (deriv c r) cs (Suc n) (if nullable r then n else best)"

definition munch_ok :: "string \<Rightarrow> string \<Rightarrow> bool" where
  "munch_ok l src =
     (list_all (\<lambda>r. longest r src 0 0 \<le> length l) (identifier_re # number_res)
      \<and> list_all (\<lambda>k. starts_with k src \<longrightarrow> length k \<le> length l) literals)"

definition in_line :: "char \<Rightarrow> bool" where
  "in_line c = (c \<notin> set [CHR 0x0D, CHR 0x0A])"

datatype piece = Gap char | Leaf string | Hidden string | Trivia string

text \<open>
  \<open>scan q src ls\<close>: the pieces of the text \<open>src\<close> when its lexemes are \<open>ls\<close>; \<open>q\<close> tells
  whether the text starts inside a string. \<open>None\<close> when the lexer does not cut \<open>src\<close> into
  these lexemes.
\<close>

function scan :: "bool \<Rightarrow> string \<Rightarrow> string list \<Rightarrow> piece list option" where
  "scan q [] ls = (if ls = [] then Some [] else None)"
| "scan q (c # cs) ls =
    (if c \<in> set whitespace then map_option (Cons (Gap c)) (scan q cs ls)
     else if c = CHR 0x27
          \<and> (q \<or> (case ls of [] \<Rightarrow> True | l # ls' \<Rightarrow> l \<noteq> c # takeWhile in_line cs))
     then map_option (Cons (Trivia (c # takeWhile in_line cs))) (scan q (dropWhile in_line cs) ls)
     else
       (case ls of
          [] \<Rightarrow> None
        | l # ls' \<Rightarrow>
            if l = [] \<or> \<not> starts_with l (c # cs) then None
            else if q then
              (if l = [CHR 0x22]
               then map_option (Cons (Leaf l)) (scan False (drop (length l) (c # cs)) ls')
               else if is_string_piece l
               then map_option (Cons (Hidden l)) (scan True (drop (length l) (c # cs)) ls')
               else None)
            else if c = CHR 0x27 \<or> munch_ok l (c # cs)
            then map_option (Cons (Leaf l))
                   (scan (l = [CHR 0x22]) (drop (length l) (c # cs)) ls')
            else None))"
  by pat_completeness auto
termination
  by (relation "measure (\<lambda>(q, src, ls). length src)")
    (auto simp: less_Suc_eq_le length_dropWhile_le neq_Nil_conv)

fun text_of :: "piece \<Rightarrow> string" where
  "text_of (Gap c) = [c]"
| "text_of (Leaf s) = s"
| "text_of (Hidden s) = s"
| "text_of (Trivia s) = s"

fun is_leaf :: "piece \<Rightarrow> bool" where
  "is_leaf (Leaf s) = True"
| "is_leaf (Trivia s) = True"
| "is_leaf p = False"

fun is_gap :: "piece \<Rightarrow> bool" where
  "is_gap (Gap c) = True"
| "is_gap p = False"

fun gap_ok :: "piece \<Rightarrow> bool" where
  "gap_ok (Gap c) = (c \<in> set whitespace)"
| "gap_ok p = True"

fun is_hidden :: "piece \<Rightarrow> bool" where
  "is_hidden (Hidden s) = True"
| "is_hidden p = False"

definition source_text :: "piece list \<Rightarrow> string" where
  "source_text ps = concat (map text_of ps)"

text \<open>The spans of the leaves, from the offset of the first piece.\<close>

fun leaf_spans :: "nat \<Rightarrow> piece list \<Rightarrow> (nat \<times> nat) list" where
  "leaf_spans off [] = []"
| "leaf_spans off (p # ps) =
     (if is_leaf p then [(off, off + length (text_of p))] else [])
       @ leaf_spans (off + length (text_of p)) ps"

definition span_text :: "string \<Rightarrow> nat \<times> nat \<Rightarrow> string" where
  "span_text src sp = take (snd sp - fst sp) (drop (fst sp) src)"

text \<open>
  The pieces, the leaf spans and the concatenated leaf texts of a source text with its
  tree; a valid input is a text that the lexer cuts into the lexemes of a well-formed tree
  whose identifiers are spelled like no keyword.
\<close>

definition pieces :: "string \<Rightarrow> stmt list \<Rightarrow> piece list option" where
  "pieces src ts = scan False src (yield_source_file ts)"

definition leaves :: "string \<Rightarrow> stmt list \<Rightarrow> (nat \<times> nat) list option" where
  "leaves src ts = map_option (leaf_spans 0) (pieces src ts)"

definition leaves_text :: "string \<Rightarrow> stmt list \<Rightarrow> string option" where
  "leaves_text src ts = map_option (\<lambda>sps. concat (map (span_text src) sps)) (leaves src ts)"

definition valid_input :: "string \<Rightarrow> stmt list \<Rightarrow> bool" where
  "valid_input src ts =
     (wf_source_file ts \<and> list_all plain_stmt ts \<and> pieces src ts \<noteq> None)"

text \<open>The lexemes of a sequence that lie between an opening and a closing quote.\<close>

fun between_quotes :: "bool \<Rightarrow> string list \<Rightarrow> string list" where
  "between_quotes q [] = []"
| "between_quotes q (l # ls) =
     (if l = [CHR 0x22] then between_quotes (\<not> q) ls
      else if q then l # between_quotes q ls
      else between_quotes q ls)"

text \<open>The contents of the string literals of a tree, in source order.\<close>

fun contents_expr :: "expr \<Rightarrow> string list" where
  "contents_expr (StringLit ps) = ps"
| "contents_expr (Binary l op r) = contents_expr l @ contents_expr r"
| "contents_expr (Unary op e) = contents_expr e"
| "contents_expr (Paren e) = contents_expr e"
| "contents_expr (Call f args) = concat (map contents_expr args)"
| "contents_expr e = []"

fun contents_loop_tail :: "loop_tail \<Rightarrow> string list" where
  "contents_loop_tail (LoopUntil e) = contents_expr e"
| "contents_loop_tail (LoopWhile e) = contents_expr e"
| "contents_loop_tail LoopBare = []"

fun contents_menu_item :: "menu_item \<Rightarrow> string list" where
  "contents_menu_item (MenuItem s x) = s"

fun contents_stmt :: "stmt \<Rightarrow> string list"
  and contents_elseif :: "elseif \<Rightarrow> string list"
  and contents_case :: "case_clause \<Rightarrow> string list" where
  "contents_stmt (Comment s) = []"
| "contents_stmt (BeginProg body) = concat (map contents_stmt body)"
| "contents_stmt (FunctionDef f ps body) = concat (map contents_stmt body)"
| "contents_stmt (SubDef f ps body) = concat (map contents_stmt body)"
| "contents_stmt (VariableDeclaration kw x ty) = []"
| "contents_stmt (Const x e) = contents_expr e"
| "contents_stmt (ConstTable es) = concat (map (\<lambda>(x, e). contents_expr e) es)"
| "contents_stmt (Assignment x op e) = contents_expr e"
| "contents_stmt (FunctionCall f args) = concat (map contents_expr args)"
| "contents_stmt (IfStatement c body eifs els) =
     contents_expr c @ concat (map contents_stmt body) @ concat (map contents_elseif eifs)
       @ (case els of None \<Rightarrow> [] | Some b \<Rightarrow> concat (map contents_stmt b))"
| "contents_stmt (ForLoop v a b st body v') =
     contents_expr a @ contents_expr b
       @ (case st of None \<Rightarrow> [] | Some s \<Rightarrow> contents_expr s)
       @ concat (map contents_stmt body)"
| "contents_stmt (WhileLoop c body) = contents_expr c @ concat (map contents_stmt body)"
| "contents_stmt (DoLoop body t) = concat (map contents_stmt body) @ contents_loop_tail t"
| "contents_stmt (SelectStatement e cs) = contents_expr e @ concat (map contents_case cs)"
| "contents_stmt (Scan i u b c body) =
     contents_expr i @ contents_expr b @ contents_expr c @ concat (map contents_stmt body)"
| "contents_stmt (SubScan i u body) = contents_expr i @ concat (map contents_stmt body)"
| "contents_stmt (SlowSequence body) = concat (map contents_stmt body)"
| "contents_stmt (DisplayMenu items) = concat (map contents_menu_item items)"
| "contents_stmt (SubMenu x items) = concat (map contents_menu_item items)"
| "contents_stmt (DataTable x b e body) = contents_expr e @ concat (map contents_stmt body)"
| "contents_stmt (CallTable x) = []"
| "contents_stmt (HashIf c body els) =
     contents_expr c @ concat (map contents_stmt body)
       @ (case els of None \<Rightarrow> [] | Some b \<Rightarrow> concat (map contents_stmt b))"
| "contents_stmt (HashIfDef x body els) =
     concat (map contents_stmt body)
       @ (case els of None \<Rightarrow> [] | Some b \<Rightarrow> concat (map contents_stmt b))"
| "contents_stmt (HashUnDef x) = []"
| "contents_stmt (Include s) = s"
| "contents_elseif (ElseIf kw c body) = contents_expr c @ concat (map contents_stmt body)"
| "contents_case (CaseValue e body) = contents_expr e @ concat (map contents_stmt body)"
| "contents_case (CaseIs e body) = contents_expr e @ concat (map contents_stmt body)"
| "contents_case (CaseElse body) = concat (map contents_stmt body)"

definition string_contents :: "stmt list \<Rightarrow> string list" where
  "string_contents ts = concat (map contents_stmt ts)"

section \<open>The matcher decides the language\<close>

lemma nullable_lang: "nullable r \<longleftrightarrow> [] \<in> lang r"
  by (induction r) (auto simp: conc_def intro: star_nil)

lemma conc_cons:
  "c # s \<in> conc A B \<longleftrightarrow>
     (\<exists>u v. s = u @ v \<and> c # u \<in> A \<and> v \<in> B) \<or> ([] \<in> A \<and> c # s \<in> B)"
  unfolding conc_def by (auto simp: Cons_eq_append_conv) 

lemma star_cons_dest:
  "x \<in> star A \<Longrightarrow> x = c # s \<Longrightarrow> \<exists>u v. s = u @ v \<and> c # u \<in> A \<and> v \<in> star A"
proof (induction arbitrary: s rule: star.induct)
  case star_nil
  then show ?case by simp
next
  case (star_app u v)
  show ?case
  proof (cases u)
    case Nil
    with star_app show ?thesis by simp
  next
    case (Cons d u')
    with star_app.prems have "d = c" "s = u' @ v" by simp_all
    with Cons star_app.hyps show ?thesis by blast
  qed
qed

lemma star_cons:
  "c # s \<in> star A \<longleftrightarrow> (\<exists>u v. s = u @ v \<and> c # u \<in> A \<and> v \<in> star A)"
proof
  assume "c # s \<in> star A"
  then show "\<exists>u v. s = u @ v \<and> c # u \<in> A \<and> v \<in> star A"
    by (rule star_cons_dest) simp
next
  assume "\<exists>u v. s = u @ v \<and> c # u \<in> A \<and> v \<in> star A"
  then obtain u v where "s = u @ v" "c # u \<in> A" "v \<in> star A" by blast
  then show "c # s \<in> star A"
    using star_app [of "c # u" A v] by simp
qed

lemma deriv_lang: "s \<in> lang (deriv c r) \<longleftrightarrow> c # s \<in> lang r"
proof (induction r arbitrary: s)
  case (Seq r1 r2)
  then show ?case
    by (auto simp: conc_cons nullable_lang) (auto simp: conc_def)
next
  case (Star r)
  then show ?case
    by (auto simp: star_cons) (auto simp: conc_def)
qed auto

lemma matches_lang: "matches r s \<longleftrightarrow> s \<in> lang r"
  by (induction s arbitrary: r) (simp_all add: nullable_lang deriv_lang)

lemma void_not_nullable: "void r \<Longrightarrow> \<not> nullable r"
  by (induction r) auto

lemma void_deriv: "void r \<Longrightarrow> void (deriv c r)"
  by (induction r) (auto simp: void_not_nullable)

lemma void_no_match: "void r \<Longrightarrow> \<not> matches r s"
  by (induction s arbitrary: r) (auto simp: void_deriv void_not_nullable)

lemma over_deriv: "over cs r \<Longrightarrow> over cs (deriv c r)"
  by (induction r) auto

lemma over_deriv_void: "over cs r \<Longrightarrow> c \<notin> set cs \<Longrightarrow> void (deriv c r)"
  by (induction r) auto

lemma over_matches: "matches r s \<Longrightarrow> over cs r \<Longrightarrow> set s \<subseteq> set cs"
proof (induction s arbitrary: r)
  case Nil
  then show ?case by simp
next
  case (Cons c s)
  have "c \<in> set cs"
  proof (rule ccontr)
    assume "c \<notin> set cs"
    with Cons.prems(2) have "void (deriv c r)" by (rule over_deriv_void)
    with Cons.prems(1) show False by (simp add: void_no_match)
  qed
  moreover have "set s \<subseteq> set cs"
    using Cons.IH [of "deriv c r"] Cons.prems by (simp add: over_deriv)
  ultimately show ?case by simp
qed

lemma concI: "u \<in> A \<Longrightarrow> v \<in> B \<Longrightarrow> u @ v \<in> conc A B"
  by (auto simp: conc_def)

lemma conc_assoc: "conc A (conc B C) = conc (conc A B) C"
proof -
  have "(u @ v) @ w \<in> conc A (conc B C)" if "u \<in> A" "v \<in> B" "w \<in> C" for u v w
    using concI [OF that(1) concI [OF that(2,3)]] by simp
  moreover have "u @ v @ w \<in> conc (conc A B) C" if "u \<in> A" "v \<in> B" "w \<in> C" for u v w
    using concI [OF concI [OF that(1,2)] that(3)] by simp
  ultimately show ?thesis
    by (auto simp: conc_def)
qed

lemma conc_snoc_Cls: "s @ [c] \<in> conc A (lang (Cls cs)) \<longleftrightarrow> s \<in> A \<and> c \<in> set cs"
  unfolding conc_def by auto

lemma run_star: "set s \<subseteq> set cs \<Longrightarrow> s \<in> star (lang (Cls cs))"
proof (induction s)
  case Nil
  show ?case by (rule star_nil)
next
  case (Cons c s)
  then have "[c] \<in> lang (Cls cs)" "s \<in> star (lang (Cls cs))" by simp_all
  then have "[c] @ s \<in> star (lang (Cls cs))" by (rule star_app)
  then show ?case by simp
qed

lemma run_plus: "s \<noteq> [] \<Longrightarrow> set s \<subseteq> set cs \<Longrightarrow> s \<in> lang (Plus (Cls cs))"
proof (cases s)
  case Nil
  assume "s \<noteq> []" with Nil show ?thesis by simp
next
  case (Cons c t)
  assume "set s \<subseteq> set cs"
  with Cons have c: "c \<in> set cs" and t: "set t \<subseteq> set cs" by simp_all
  from c have "[c] \<in> lang (Cls cs)" by simp
  moreover from t have "t \<in> star (lang (Cls cs))" by (rule run_star)
  ultimately have "[c] \<in> lang (Cls cs)" "t \<in> star (lang (Cls cs))" .
  then have "[c] @ t \<in> conc (lang (Cls cs)) (star (lang (Cls cs)))" by (rule concI)
  with Cons show ?thesis by (simp add: Plus_def)
qed

lemma is_numberI: "r \<in> set number_res \<Longrightarrow> s \<in> lang r \<Longrightarrow> is_number s"
  by (auto simp: is_number_def list_ex_iff matches_lang)

lemma number_first: "is_number (c # s) \<Longrightarrow> c \<in> set ''&.0123456789''"
  by (rule ccontr)
    (auto simp add: is_number_def number_res_def Plus_def Opt_def digit_def void_no_match)

lemma identifier_first: "is_identifier (c # s) \<Longrightarrow> c \<in> set (letters @ ''_'')"
  by (rule ccontr) (auto simp add: is_identifier_def identifier_re_def void_no_match)



lemma run_digits: "s \<noteq> [] \<Longrightarrow> set s \<subseteq> set ''0123456789'' \<Longrightarrow> s \<in> lang (Plus digit)"
  unfolding digit_def by (rule run_plus)

lemma run_digits0: "set s \<subseteq> set ''0123456789'' \<Longrightarrow> s \<in> lang (Star digit)"
  unfolding digit_def using run_star [of s "''0123456789''"] by (simp only: lang.simps(7))

lemma one_Cls: "c \<in> set cs \<Longrightarrow> [c] \<in> lang (Cls cs)"
  by simp

lemma sign_Opt: "sg \<in> set [[], ''+'', ''-''] \<Longrightarrow> sg \<in> lang (Opt (Cls ''+-''))"
  by (auto simp: Opt_def)

lemmas seq_lang = seqs.simps lang.simps(5)

lemma number_binary:
  assumes "b \<in> set ''bB''" "bs \<noteq> []" "set bs \<subseteq> set ''01''"
  shows "is_number (CHR ''&'' # b # bs)"
proof -
  have "[CHR ''&''] @ [b] @ bs \<in> lang (seqs [Cls ''&'', Cls ''bB'', Plus (Cls ''01'')])"
    unfolding seq_lang using assms by (intro concI one_Cls run_plus) simp_all
  then show ?thesis
    by (intro is_numberI [where r = "seqs [Cls ''&'', Cls ''bB'', Plus (Cls ''01'')]"])
      (simp_all add: number_res_def)
qed

lemma number_hex:
  assumes "h \<in> set ''hH''" "hs \<noteq> []" "set hs \<subseteq> set ''0123456789abcdefABCDEF''"
  shows "is_number (CHR ''&'' # h # hs)"
proof -
  have "[CHR ''&''] @ [h] @ hs
      \<in> lang (seqs [Cls ''&'', Cls ''hH'', Plus (Cls ''0123456789abcdefABCDEF'')])"
    unfolding seq_lang using assms by (intro concI one_Cls run_plus) simp_all
  then show ?thesis
    by (intro is_numberI
        [where r = "seqs [Cls ''&'', Cls ''hH'', Plus (Cls ''0123456789abcdefABCDEF'')]"])
      (simp_all add: number_res_def)
qed

lemma number_integer:
  assumes "ds \<noteq> []" "set ds \<subseteq> set ''0123456789''"
  shows "is_number ds"
  using run_digits [OF assms]
  by (intro is_numberI [where r = "Plus digit"]) (simp_all add: number_res_def)

lemma number_point:
  assumes "ds \<noteq> []" "set ds \<subseteq> set ''0123456789''" "set fs \<subseteq> set ''0123456789''"
  shows "is_number (ds @ CHR ''.'' # fs)"
proof -
  have "ds @ [CHR ''.''] @ fs \<in> lang (seqs [Plus digit, Cls ''.'', Star digit])"
    unfolding seq_lang using assms by (intro concI one_Cls run_digits run_digits0) simp_all
  then show ?thesis
    by (intro is_numberI [where r = "seqs [Plus digit, Cls ''.'', Star digit]"])
      (simp_all add: number_res_def)
qed

lemma number_leading_dot:
  assumes "gs \<noteq> []" "set gs \<subseteq> set ''0123456789''"
  shows "is_number (CHR ''.'' # gs)"
proof -
  have "[CHR ''.''] @ gs \<in> lang (seqs [Cls ''.'', Plus digit])"
    unfolding seq_lang using assms by (intro concI one_Cls run_digits) simp_all
  then show ?thesis
    by (intro is_numberI [where r = "seqs [Cls ''.'', Plus digit]"])
      (simp_all add: number_res_def)
qed

lemma number_integer_exp:
  assumes "ds \<noteq> []" "set ds \<subseteq> set ''0123456789''"
    and "e \<in> set ''eE''" "sg \<in> set [[], ''+'', ''-'']"
    and "es \<noteq> []" "set es \<subseteq> set ''0123456789''"
  shows "is_number (ds @ e # sg @ es)"
proof -
  have "ds @ [e] @ sg @ es \<in> lang (seqs [Plus digit, Cls ''eE'', Opt (Cls ''+-''), Plus digit])"
    unfolding seq_lang using assms by (intro concI one_Cls run_digits sign_Opt) simp_all
  then show ?thesis
    by (intro is_numberI
        [where r = "seqs [Plus digit, Cls ''eE'', Opt (Cls ''+-''), Plus digit]"])
      (simp_all add: number_res_def)
qed

lemma number_point_exp:
  assumes "ds \<noteq> []" "set ds \<subseteq> set ''0123456789''" "set fs \<subseteq> set ''0123456789''"
    and "e \<in> set ''eE''" "sg \<in> set [[], ''+'', ''-'']"
    and "es \<noteq> []" "set es \<subseteq> set ''0123456789''"
  shows "is_number (ds @ CHR ''.'' # fs @ e # sg @ es)"
proof -
  have "ds @ [CHR ''.''] @ fs @ [e] @ sg @ es
      \<in> lang (seqs [Plus digit, Cls ''.'', Star digit, Cls ''eE'', Opt (Cls ''+-''), Plus digit])"
    unfolding seq_lang using assms
    by (intro concI one_Cls run_digits run_digits0 sign_Opt) simp_all
  then show ?thesis
    by (intro is_numberI
        [where r = "seqs [Plus digit, Cls ''.'', Star digit, Cls ''eE'', Opt (Cls ''+-''),
                          Plus digit]"])
      (simp_all add: number_res_def)
qed

lemma number_leading_dot_exp:
  assumes "gs \<noteq> []" "set gs \<subseteq> set ''0123456789''"
    and "e \<in> set ''eE''" "sg \<in> set [[], ''+'', ''-'']"
    and "es \<noteq> []" "set es \<subseteq> set ''0123456789''"
  shows "is_number (CHR ''.'' # gs @ e # sg @ es)"
proof -
  have "[CHR ''.''] @ gs @ [e] @ sg @ es
      \<in> lang (seqs [Cls ''.'', Plus digit, Cls ''eE'', Opt (Cls ''+-''), Plus digit])"
    unfolding seq_lang using assms by (intro concI one_Cls run_digits sign_Opt) simp_all
  then show ?thesis
    by (intro is_numberI
        [where r = "seqs [Cls ''.'', Plus digit, Cls ''eE'', Opt (Cls ''+-''), Plus digit]"])
      (simp_all add: number_res_def)
qed

lemma number_integer_suffix:
  assumes "ds \<noteq> []" "set ds \<subseteq> set ''0123456789''" "x \<in> set ''LlUuFf''"
  shows "is_number (ds @ [x])"
proof -
  have "ds @ [x] \<in> lang (seqs [Plus digit, Cls ''LlUuFf''])"
    unfolding seq_lang using assms by (intro concI one_Cls run_digits) simp_all
  then show ?thesis
    by (intro is_numberI [where r = "seqs [Plus digit, Cls ''LlUuFf'']"])
      (simp_all add: number_res_def)
qed

lemma number_point_suffix:
  assumes "ds \<noteq> []" "set ds \<subseteq> set ''0123456789''" "set fs \<subseteq> set ''0123456789''"
    and "x \<in> set ''LlUuFf''"
  shows "is_number (ds @ CHR ''.'' # fs @ [x])"
proof -
  have "ds @ [CHR ''.''] @ fs @ [x] \<in> lang (seqs [Plus digit, Cls ''.'', Star digit, Cls ''LlUuFf''])"
    unfolding seq_lang using assms by (intro concI one_Cls run_digits run_digits0) simp_all
  then show ?thesis
    by (intro is_numberI [where r = "seqs [Plus digit, Cls ''.'', Star digit, Cls ''LlUuFf'']"])
      (simp_all add: number_res_def)
qed

text \<open>No alternative of \<^verbatim>\<open>number\<close> takes two suffix letters.\<close>

lemma over_lang: "s \<in> lang r \<Longrightarrow> over cs r \<Longrightarrow> set s \<subseteq> set cs"
  using over_matches [of r s cs] by (simp add: matches_lang)

lemma number_two_suffixes:
  assumes ds: "ds \<noteq> []" "set ds \<subseteq> set ''0123456789''"
    and x: "x \<in> set ''LlUuFf''" and y: "y \<in> set ''LlUuFf''"
  shows "\<not> is_number (ds @ [x, y])"
proof
  assume "is_number (ds @ [x, y])"
  then obtain r where r: "r \<in> set number_res" and m: "matches r (ds @ [x, y])"
    by (auto simp: is_number_def list_ex_iff)
  from ds obtain d ds' where d: "ds = d # ds'" "d \<in> set ''0123456789''"
    by (cases ds) auto
  have amp: False if "matches (Seq (Cls ''&'') q) (ds @ [x, y])" for q
    using that d by (auto simp: void_no_match)
  have dot: False if "matches (Seq (Cls ''.'') q) (ds @ [x, y])" for q
    using that d by (auto simp: void_no_match)
  have plain: False if "matches q (ds @ [x, y])" "over ''0123456789.eE+-'' q" for q
  proof -
    from that have "y \<in> set ''0123456789.eE+-''"
      using over_matches [of q "ds @ [x, y]" "''0123456789.eE+-''"] by simp
    with y show False by auto
  qed
  have suffixed: False
    if "ds @ [x, y] \<in> conc (lang q) (lang (Cls ''LlUuFf''))" "over ''0123456789.'' q" for q
  proof -
    from that(1) have "(ds @ [x]) @ [y] \<in> conc (lang q) (lang (Cls ''LlUuFf''))" by simp
    then have "ds @ [x] \<in> lang q" unfolding conc_snoc_Cls by simp
    then have "set (ds @ [x]) \<subseteq> set ''0123456789.''" using that(2) by (rule over_lang)
    with x show False by auto
  qed
  from r consider
      (1) "r = seqs [Cls ''&'', Cls ''bB'', Plus (Cls ''01'')]"
    | (2) "r = seqs [Cls ''&'', Cls ''hH'', Plus (Cls ''0123456789abcdefABCDEF'')]"
    | (3) "r = Plus digit"
    | (4) "r = seqs [Plus digit, Cls ''.'', Star digit]"
    | (5) "r = seqs [Cls ''.'', Plus digit]"
    | (6) "r = seqs [Plus digit, Cls ''eE'', Opt (Cls ''+-''), Plus digit]"
    | (7) "r = seqs [Plus digit, Cls ''.'', Star digit, Cls ''eE'', Opt (Cls ''+-''), Plus digit]"
    | (8) "r = seqs [Cls ''.'', Plus digit, Cls ''eE'', Opt (Cls ''+-''), Plus digit]"
    | (9) "r = seqs [Plus digit, Cls ''LlUuFf'']"
    | (10) "r = seqs [Plus digit, Cls ''.'', Star digit, Cls ''LlUuFf'']"
    by (auto simp: number_res_def)
  then show False
  proof cases
    case 1 with m show False using amp by simp
  next
    case 2 with m show False using amp by simp
  next
    case 3
    then have "over ''0123456789.eE+-'' r" by (simp add: Plus_def Opt_def digit_def)
    with m show False by (rule plain)
  next
    case 4
    then have "over ''0123456789.eE+-'' r" by (simp add: Plus_def Opt_def digit_def)
    with m show False by (rule plain)
  next
    case 5 with m show False using dot by simp
  next
    case 6
    then have "over ''0123456789.eE+-'' r" by (simp add: Plus_def Opt_def digit_def)
    with m show False by (rule plain)
  next
    case 7
    then have "over ''0123456789.eE+-'' r" by (simp add: Plus_def Opt_def digit_def)
    with m show False by (rule plain)
  next
    case 8 with m show False using dot by simp
  next
    case 9
    with m have "ds @ [x, y] \<in> conc (lang (Plus digit)) (lang (Cls ''LlUuFf''))"
      by (simp only: matches_lang seq_lang)
    then show False by (rule suffixed) (simp add: Plus_def digit_def)
  next
    case 10
    with m have "ds @ [x, y]
        \<in> conc (lang (seqs [Plus digit, Cls ''.'', Star digit])) (lang (Cls ''LlUuFf''))"
      by (simp only: matches_lang seq_lang conc_assoc)
    then show False by (rule suffixed) (simp add: Plus_def digit_def)
  qed
qed


section \<open>Numeric literals\<close>

text \<open>
  C5, as stated, fails: \<^verbatim>\<open>10UL\<close> and \<^verbatim>\<open>10Ul\<close> are not matched by any alternative of
  \<^verbatim>\<open>number\<close>; the suffix alternatives \<^verbatim>\<open>/\d+[LlUuFf]/\<close> and \<^verbatim>\<open>/\d+\.\d*[LlUuFf]/\<close> take one
  letter, and \<^verbatim>\<open>10U\<close> is a number.
\<close>

theorem number_double_suffix_counterexample:
  "is_number ''10U'' \<and> \<not> is_number ''10UL'' \<and> \<not> is_number ''10Ul''
   \<and> \<not> wf_expr (Number ''10UL'') \<and> \<not> wf_expr (Number ''10Ul'')"
  by (simp add: is_number_def number_res_def Plus_def Opt_def digit_def)

text \<open>
  C5, amended: binary (\<^verbatim>\<open>&b\<close>/\<^verbatim>\<open>&B\<close>) and hexadecimal (\<^verbatim>\<open>&h\<close>/\<^verbatim>\<open>&H\<close>) literals, decimal
  integers, decimals with a point and leading-dot decimals are each one \<^verbatim>\<open>number\<close>; so are
  the three decimal forms followed by an exponent (\<^verbatim>\<open>e\<close>/\<^verbatim>\<open>E\<close>, an optional sign, digits),
  and a decimal integer or a decimal with a point followed by one suffix letter out of
  \<^verbatim>\<open>LlUuFf\<close>. A decimal integer followed by two suffix letters is not a \<^verbatim>\<open>number\<close>.
\<close>

theorem number_token_forms:
  assumes "b \<in> set ''bB''" "bs \<noteq> []" "set bs \<subseteq> set ''01''"
    and "h \<in> set ''hH''" "hs \<noteq> []" "set hs \<subseteq> set ''0123456789abcdefABCDEF''"
    and "ds \<noteq> []" "set ds \<subseteq> set ''0123456789''"
    and "set fs \<subseteq> set ''0123456789''"
    and "gs \<noteq> []" "set gs \<subseteq> set ''0123456789''"
    and "e \<in> set ''eE''" "sg \<in> set [[], ''+'', ''-'']"
    and "es \<noteq> []" "set es \<subseteq> set ''0123456789''"
    and "x \<in> set ''LlUuFf''" "y \<in> set ''LlUuFf''"
  shows "is_number (CHR ''&'' # b # bs)
       \<and> is_number (CHR ''&'' # h # hs)
       \<and> is_number ds
       \<and> is_number (ds @ CHR ''.'' # fs)
       \<and> is_number (CHR ''.'' # gs)
       \<and> is_number (ds @ e # sg @ es)
       \<and> is_number (ds @ CHR ''.'' # fs @ e # sg @ es)
       \<and> is_number (CHR ''.'' # gs @ e # sg @ es)
       \<and> is_number (ds @ [x])
       \<and> is_number (ds @ CHR ''.'' # fs @ [x])
       \<and> \<not> is_number (ds @ [x, y])"
  using assms
  by (intro conjI number_binary number_hex number_integer number_point number_leading_dot
      number_integer_exp number_point_exp number_leading_dot_exp number_integer_suffix
      number_point_suffix number_two_suffixes)

theorem number_token_forms_witness:
  "set ''101'' \<subseteq> set ''01'' \<and> set ''FF'' \<subseteq> set ''0123456789abcdefABCDEF''
   \<and> set ''10'' \<subseteq> set ''0123456789'' \<and> set ''5'' \<subseteq> set ''0123456789''
   \<and> set ''3'' \<subseteq> set ''0123456789''
   \<and> is_number ''&b101'' \<and> is_number ''&hFF'' \<and> is_number ''10'' \<and> is_number ''10.5''
   \<and> is_number ''.5'' \<and> is_number ''10e-3'' \<and> is_number ''10.5e-3'' \<and> is_number ''.5e-3''
   \<and> is_number ''10U'' \<and> is_number ''10.5U'' \<and> \<not> is_number ''10UL''"
  using number_token_forms [of "CHR ''b''" "''101''" "CHR ''h''" "''FF''" "''10''" "''5''" "''5''"
      "CHR ''e''" "''-''" "''3''" "CHR ''U''" "CHR ''L''"]
  by simp

section \<open>Keywords and boolean literals\<close>

lemma keyword_spellings_distinct: "distinct (map (map lower) keyword_literals)"
  by code_simp

text \<open>
  C4, as stated, fails: \<^verbatim>\<open>tRuE\<close> is a case variant of \<^verbatim>\<open>true\<close> and is not among the six
  literals of \<^verbatim>\<open>boolean\<close> (it is an \<^verbatim>\<open>identifier\<close>), and \<^verbatim>\<open>BEGINPROG\<close> is a case variant
  of \<^verbatim>\<open>BeginProg\<close> and is no keyword.
\<close>

theorem keyword_case_counterexample:
  "is_boolean ''true'' \<and> case_variant ''tRuE'' ''true'' \<and> \<not> is_boolean ''tRuE''
   \<and> \<not> wf_expr (Boolean ''tRuE'') \<and> wf_expr (Identifier ''tRuE'')
   \<and> is_keyword ''BeginProg'' \<and> case_variant ''BEGINPROG'' ''BeginProg''
   \<and> \<not> is_keyword ''BEGINPROG''"
  by code_simp

text \<open>
  C4, amended: keyword recognition is by exact spelling. Each keyword is recognised in the
  one spelling the grammar gives it: no other case variant of a keyword is a keyword. A
  boolean literal is recognised in exactly three casings, \<^verbatim>\<open>true\<close>, \<^verbatim>\<open>True\<close>, \<^verbatim>\<open>TRUE\<close>
  (and \<^verbatim>\<open>false\<close>, \<^verbatim>\<open>False\<close>, \<^verbatim>\<open>FALSE\<close>), which all are of the one kind \<^verbatim>\<open>boolean\<close>.
\<close>

theorem keyword_spelling_exact:
  "(is_keyword k \<and> is_keyword s \<and> case_variant s k \<longrightarrow> s = k)
   \<and> (is_boolean s \<and> case_variant s ''true'' \<longleftrightarrow> s \<in> set [''true'', ''True'', ''TRUE''])
   \<and> (is_boolean s \<and> case_variant s ''false'' \<longleftrightarrow> s \<in> set [''false'', ''False'', ''FALSE''])
   \<and> (wf_expr (Boolean s) \<longleftrightarrow>
        s \<in> set [''True'', ''False'', ''TRUE'', ''FALSE'', ''true'', ''false''])"
proof -
  have "inj_on (map lower) (set keyword_literals)"
    using keyword_spellings_distinct by (simp add: distinct_map)
  then have "s = k" if "is_keyword k" "is_keyword s" "case_variant s k"
    using that by (auto simp: is_keyword_def case_variant_def dest: inj_onD)
  moreover have
    "is_boolean s \<and> case_variant s ''true'' \<longleftrightarrow> s \<in> set [''true'', ''True'', ''TRUE'']"
    "is_boolean s \<and> case_variant s ''false'' \<longleftrightarrow> s \<in> set [''false'', ''False'', ''FALSE'']"
    by (auto simp: is_boolean_def boolean_words_def case_variant_def lower_def)
  moreover have "wf_expr (Boolean s) \<longleftrightarrow>
      s \<in> set [''True'', ''False'', ''TRUE'', ''FALSE'', ''true'', ''false'']"
    by (simp add: is_boolean_def boolean_words_def)
  ultimately show ?thesis by blast
qed

theorem keyword_spelling_exact_witness:
  "is_keyword ''EndProg'' \<and> case_variant ''EndProg'' ''EndProg''
   \<and> is_boolean ''TRUE'' \<and> case_variant ''TRUE'' ''true'' \<and> wf_expr (Boolean ''TRUE'')"
  using keyword_spelling_exact [of "''EndProg''" "''EndProg''"]
    keyword_spelling_exact [of "''true''" "''TRUE''"]
  by (simp add: is_keyword_def keyword_literals_def case_variant_def)

section \<open>Precedence and associativity of expressions\<close>

lemma binary_prec_Some:
  "binary_prec op = Some p \<Longrightarrow>
     op \<in> set [''+'', ''-'', ''*'', ''/'', ''MOD'', ''INTDV'', ''^'', ''='', ''<>'', ''<'', ''>'',
               ''<='', ''>='', ''AND'', ''OR'', ''XOR'', ''IMP'', ''&'', ''|'', ''>>'', ''<<'']"
  by (auto simp: binary_prec_def binary_levels_def split: if_splits)

lemma number_nonempty: "\<not> is_number []"
  by (simp add: is_number_def number_res_def Plus_def Opt_def digit_def)

lemma number_not_literal:
  "\<not> is_number ''&''" "\<not> is_number ''(''" "\<not> is_number [CHR 0x22]"
  "\<not> is_number ''-''" "\<not> is_number ''+''" "\<not> is_number ''NOT''" "\<not> is_number ''!''"
  by (simp_all add: is_number_def number_res_def Plus_def Opt_def digit_def)

lemma number_not_identifier: "is_number a \<Longrightarrow> \<not> is_identifier a"
  by (cases a) (auto simp: number_nonempty letters_def dest!: number_first identifier_first)

lemma number_not_boolean: "is_number a \<Longrightarrow> \<not> is_boolean a"
  by (cases a) (auto simp: number_nonempty is_boolean_def boolean_words_def dest!: number_first)

lemma number_not_unary: "is_number a \<Longrightarrow> a \<notin> set unary_ops"
  by (auto simp: unary_ops_def number_not_literal)

lemma number_not_binary: "is_number a \<Longrightarrow> binary_prec a = None"
proof (rule ccontr)
  assume a: "is_number a" and "binary_prec a \<noteq> None"
  then obtain p where "binary_prec a = Some p" by auto
  note ops = binary_prec_Some [OF this]
  from a obtain c s where cs: "a = c # s" "c \<in> set ''&.0123456789''"
    by (cases a) (auto simp: number_nonempty dest: number_first)
  with ops have "a = ''&''" by auto
  with a show False by (simp add: number_not_literal)
qed

lemma yield_expr_nonempty: "yield_expr e \<noteq> []"
  by (cases e) (simp_all add: yield_string_def)

lemma yield_single:
  assumes "wf_expr e" "yield_expr e = [a]" "is_number a"
  shows "e = Number a"
  using assms
  by (cases e)
    (auto simp: yield_string_def yield_expr_nonempty append_eq_Cons_conv
      number_not_identifier number_not_boolean)

lemma yield_triple:
  assumes "wf_expr e" "yield_expr e = [a, x, b]" "is_number a" "is_number b"
  shows "e = Binary (Number a) x (Number b)"
proof (cases e)
  case (Binary l op r)
  with assms(2) have "yield_expr l = [a] \<and> op = x \<and> yield_expr r = [b]"
    by (auto simp: append_eq_Cons_conv yield_expr_nonempty)
  moreover from Binary assms(1) have "wf_expr l" "wf_expr r" by (auto split: option.splits)
  ultimately show ?thesis using Binary assms(3,4) by (simp add: yield_single)
qed (use assms in \<open>auto simp: yield_string_def number_not_identifier number_not_unary
      number_not_literal\<close>)


lemma yield_five:
  assumes "wf_expr e" "yield_expr e = [a, x, b, y, c]"
    and "is_number a" "is_number b" "is_number c"
  shows "e = Binary (Number a) x (Binary (Number b) y (Number c))
       \<or> e = Binary (Binary (Number a) x (Number b)) y (Number c)"
proof (cases e)
  case (Binary l op r)
  from Binary assms(1) have wf: "wf_expr l" "wf_expr r" "binary_prec op \<noteq> None"
    by (auto split: option.splits)
  from wf(3) assms(3-5) have op: "op \<noteq> a" "op \<noteq> b" "op \<noteq> c"
    by (auto dest: number_not_binary)
  from Binary assms(2) have "yield_expr l @ op # yield_expr r = [a, x, b, y, c]" by simp
  with op consider
      "yield_expr l = [a]" "op = x" "yield_expr r = [b, y, c]"
    | "yield_expr l = [a, x, b]" "op = y" "yield_expr r = [c]"
    by (auto simp: append_eq_Cons_conv yield_expr_nonempty)
  then show ?thesis
  proof cases
    case 1
    with wf assms(3-5) Binary show ?thesis by (simp add: yield_single yield_triple)
  next
    case 2
    with wf assms(3-5) Binary show ?thesis by (simp add: yield_single yield_triple)
  qed
qed (use assms in \<open>auto simp: yield_string_def number_not_identifier number_not_unary
      number_not_literal\<close>)

lemma parse_two_operators:
  assumes "is_number a" "is_number b" "is_number c"
    and "binary_prec x = Some p" "binary_prec y = Some q"
  shows "parses_expr [a, x, b, y, c] e \<longleftrightarrow>
     e = (if q \<le> p then Binary (Binary (Number a) x (Number b)) y (Number c)
          else Binary (Number a) x (Binary (Number b) y (Number c)))"
proof
  assume "parses_expr [a, x, b, y, c] e"
  then have e: "wf_expr e" "yield_expr e = [a, x, b, y, c]" by (simp_all add: parses_expr_def)
  from yield_five [OF e assms(1-3)] e(1) assms(4,5) show
    "e = (if q \<le> p then Binary (Binary (Number a) x (Number b)) y (Number c)
          else Binary (Number a) x (Binary (Number b) y (Number c)))"
    by (auto simp: left_operand_ok_def right_operand_ok_def)
next
  assume "e = (if q \<le> p then Binary (Binary (Number a) x (Number b)) y (Number c)
          else Binary (Number a) x (Binary (Number b) y (Number c)))"
  with assms show "parses_expr [a, x, b, y, c] e"
    by (auto simp: parses_expr_def left_operand_ok_def right_operand_ok_def)
qed


lemma binary_prec_range: "binary_prec x = Some p \<Longrightarrow> 1 \<le> p \<and> p \<le> 7"
  by (auto simp: binary_prec_def binary_levels_def split: if_splits)

lemma yield_pair:
  assumes "wf_expr e" "yield_expr e = [u, a]" "is_number a"
  shows "e = Unary u (Number a)"
  using assms
  by (cases e)
    (auto simp: yield_string_def yield_expr_nonempty append_eq_Cons_conv yield_single
      number_not_literal)

lemma yield_prefixed:
  assumes "wf_expr e" "yield_expr e = [u, a, x, b]"
    and "u \<in> set unary_ops" "is_number a" "is_number b"
  shows "e = Binary (Unary u (Number a)) x (Number b)"
proof (cases e)
  case (Binary l op r)
  from Binary assms(1) have wf: "wf_expr l" "wf_expr r" "binary_prec op \<noteq> None"
    by (auto split: option.splits)
  from wf(3) assms(4,5) have op: "op \<noteq> a" "op \<noteq> b"
    by (auto dest: number_not_binary)
  from Binary assms(2) have "yield_expr l @ op # yield_expr r = [u, a, x, b]" by simp
  with op have "yield_expr l = [u, a] \<and> op = x \<and> yield_expr r = [b]"
    by (auto simp: append_eq_Cons_conv yield_expr_nonempty)
  with wf assms(4,5) Binary show ?thesis by (simp add: yield_single yield_pair)
next
  case (Unary v e')
  with assms have "wf_expr e'" "yield_expr e' = [a, x, b]" by simp_all
  then have e': "e' = Binary (Number a) x (Number b)" using assms(4,5) by (rule yield_triple)
  with \<open>wf_expr e'\<close> obtain p where "binary_prec x = Some p" by (auto split: option.splits)
  with e' Unary assms(1) binary_prec_range [of x p] show ?thesis
    by (simp add: right_operand_ok_def unary_prec_def)
qed (use assms in \<open>auto simp: yield_string_def unary_ops_def number_not_identifier
      number_not_literal\<close>)

text \<open>
  C1: a multiplicative operator (\<^verbatim>\<open>*\<close>, \<^verbatim>\<open>/\<close>, \<^verbatim>\<open>MOD\<close>, \<^verbatim>\<open>INTDV\<close>) binds tighter than an additive
  one (\<^verbatim>\<open>+\<close>, \<^verbatim>\<open>-\<close>). For number literals \<open>a\<close>, \<open>b\<close>, \<open>c\<close> the only parse of \<open>a add b mul c\<close> is
  \<open>Binary a add (Binary b mul c)\<close> and the only parse of \<open>a mul b add c\<close> is
  \<open>Binary (Binary a mul b) add c\<close>; in any expression, no operand of a multiplicative
  operator is an additive binary expression. The witness is \<^verbatim>\<open>2+3*4\<close>.
\<close>

theorem multiplicative_binds_tighter:
  assumes "add \<in> set [''+'', ''-'']" "mul \<in> set [''*'', ''/'', ''MOD'', ''INTDV'']"
    and "is_number a" "is_number b" "is_number c"
  shows "(parses_expr [a, add, b, mul, c] e \<longleftrightarrow>
            e = Binary (Number a) add (Binary (Number b) mul (Number c)))
       \<and> (parses_expr [a, mul, b, add, c] e \<longleftrightarrow>
            e = Binary (Binary (Number a) mul (Number b)) add (Number c))
       \<and> (wf_expr (Binary l mul r) \<longrightarrow> l \<noteq> Binary l' add r' \<and> r \<noteq> Binary l' add r')"
proof -
  from assms(1,2) have p: "binary_prec add = Some 1" "binary_prec mul = Some 2"
    by (auto simp: binary_prec_def binary_levels_def)
  show ?thesis
    using parse_two_operators [OF assms(3-5) p(1) p(2), of e]
      parse_two_operators [OF assms(3-5) p(2) p(1), of e] p
    by (auto simp: left_operand_ok_def right_operand_ok_def)
qed

theorem multiplicative_binds_tighter_witness:
  "is_number ''2'' \<and> is_number ''3'' \<and> is_number ''4''
   \<and> parses_expr [''2'', ''+'', ''3'', ''*'', ''4'']
        (Binary (Number ''2'') ''+'' (Binary (Number ''3'') ''*'' (Number ''4'')))
   \<and> \<not> parses_expr [''2'', ''+'', ''3'', ''*'', ''4'']
        (Binary (Binary (Number ''2'') ''+'' (Number ''3'')) ''*'' (Number ''4''))"
proof -
  have n: "is_number ''2''" "is_number ''3''" "is_number ''4''"
    by (simp_all add: is_number_def number_res_def Plus_def Opt_def digit_def)
  show ?thesis
    using n multiplicative_binds_tighter [of "''+''" "''*''" "''2''" "''3''" "''4''"]
    by simp
qed

lemma wf_subexprs: "wf_expr e \<Longrightarrow> s \<in> set (subexprs e) \<Longrightarrow> wf_expr s"
proof (induction e)
  case (Binary l op r)
  then show ?case by (auto split: option.splits)
next
  case (Call f args)
  then show ?case by (auto simp: list_all_iff)
qed auto

lemma yield_seven:
  assumes "wf_expr e" "yield_expr e = [a, x, b, y, c, z, d]"
    and "is_number a" "is_number b" "is_number c" "is_number d"
  shows "(\<exists>r. e = Binary (Number a) x r \<and> yield_expr r = [b, y, c, z, d])
       \<or> (\<exists>l r. e = Binary l y r \<and> yield_expr l = [a, x, b] \<and> yield_expr r = [c, z, d])
       \<or> (\<exists>l. e = Binary l z (Number d) \<and> yield_expr l = [a, x, b, y, c])"
proof (cases e)
  case (Binary l op r)
  from Binary assms(1) have wf: "wf_expr l" "wf_expr r" "binary_prec op \<noteq> None"
    by (auto split: option.splits)
  from wf(3) assms(3-6) have op: "op \<noteq> a" "op \<noteq> b" "op \<noteq> c" "op \<noteq> d"
    by (auto dest: number_not_binary)
  from Binary assms(2) have "yield_expr l @ op # yield_expr r = [a, x, b, y, c, z, d]" by simp
  with op consider
      "yield_expr l = [a]" "op = x" "yield_expr r = [b, y, c, z, d]"
    | "yield_expr l = [a, x, b]" "op = y" "yield_expr r = [c, z, d]"
    | "yield_expr l = [a, x, b, y, c]" "op = z" "yield_expr r = [d]"
    by (auto simp: append_eq_Cons_conv yield_expr_nonempty)
  then show ?thesis
  proof cases
    case 1
    with wf assms(3) Binary show ?thesis by (simp add: yield_single)
  next
    case 2
    with Binary show ?thesis by simp
  next
    case 3
    with wf assms(6) Binary show ?thesis by (simp add: yield_single)
  qed
qed (use assms in \<open>auto simp: yield_string_def number_not_identifier number_not_unary
      number_not_literal\<close>)

lemma parse_three_operators:
  assumes "is_number a" "is_number b" "is_number c" "is_number d"
    and "binary_prec x = Some p" "binary_prec y = Some p" "binary_prec z = Some p"
  shows "parses_expr [a, x, b, y, c, z, d] e \<longleftrightarrow>
     e = Binary (Binary (Binary (Number a) x (Number b)) y (Number c)) z (Number d)"
proof
  assume "parses_expr [a, x, b, y, c, z, d] e"
  then have e: "wf_expr e" "yield_expr e = [a, x, b, y, c, z, d]"
    by (simp_all add: parses_expr_def)
  from yield_seven [OF e assms(1-4)] consider
      r where "e = Binary (Number a) x r" "yield_expr r = [b, y, c, z, d]"
    | l r where "e = Binary l y r" "yield_expr l = [a, x, b]" "yield_expr r = [c, z, d]"
    | l where "e = Binary l z (Number d)" "yield_expr l = [a, x, b, y, c]"
    by blast
  then show "e = Binary (Binary (Binary (Number a) x (Number b)) y (Number c)) z (Number d)"
  proof cases
    case 1
    with e(1) assms(5) have r: "wf_expr r" "right_operand_ok p r" by simp_all
    from yield_five [OF r(1) 1(2) assms(2-4)] r(2) assms(6,7) show ?thesis
      by (auto simp: right_operand_ok_def)
  next
    case 2
    with e(1) assms(6) have r: "wf_expr r" "right_operand_ok p r" by simp_all
    from yield_triple [OF r(1) 2(3) assms(3,4)] r(2) assms(7) show ?thesis
      by (auto simp: right_operand_ok_def)
  next
    case 3
    with e(1) assms(7) have "parses_expr [a, x, b, y, c] l" by (simp add: parses_expr_def)
    with parse_two_operators [OF assms(1-3) assms(5,6), of l] 3(1) show ?thesis by simp
  qed
next
  assume "e = Binary (Binary (Binary (Number a) x (Number b)) y (Number c)) z (Number d)"
  with assms show "parses_expr [a, x, b, y, c, z, d] e"
    by (simp add: parses_expr_def left_operand_ok_def right_operand_ok_def)
qed

lemma precedence_levels_eight: "precedence_levels = [1, 2, 3, 4, 5, 6, 7, 8]"
  by (simp add: precedence_levels_def binary_levels_def unary_prec_def)

text \<open>
  C2: binary operators of one level group to the left, \<^verbatim>\<open>^\<close> among them. For number
  literals the only parse of \<open>a x b y c\<close>, with \<open>x\<close> and \<open>y\<close> of the same level, is
  \<open>Binary (Binary a x b) y c\<close>, and the only parse of a chain of four is the left-nested
  one. For arbitrary operands: at no node of a well-formed expression is the right operand
  of a binary operator a binary expression of the same level, and the left-nested tree is
  well-formed. The unary operators bind tighter than every binary level: the only parse of
  \<open>u a x b\<close> is \<open>Binary (Unary u a) x b\<close>, at no node is the operand of a unary operator a
  binary expression, and a unary expression is admitted as the left operand of every
  binary operator. The precedence levels of the grammar are the eight numbers 1 to 8: the
  binary operators have the levels 1 to 7 and the unary operators the eighth. The witness
  is \<^verbatim>\<open>2^3^2\<close>, \<^verbatim>\<open>2^3^2^3\<close>, \<^verbatim>\<open>-2^3\<close>, and \<^verbatim>\<open>a^b^c\<close> and \<^verbatim>\<open>-a^b\<close> for identifiers.
\<close>

theorem binary_left_associative_unary_tighter:
  assumes "binary_prec x = Some p" "binary_prec y = Some p" "binary_prec z = Some p"
    and "u \<in> set unary_ops"
    and "is_number a" "is_number b" "is_number c" "is_number d"
  shows "(parses_expr [a, x, b, y, c] e \<longleftrightarrow>
            e = Binary (Binary (Number a) x (Number b)) y (Number c))
       \<and> (parses_expr [a, x, b, y, c, z, d] e \<longleftrightarrow>
            e = Binary (Binary (Binary (Number a) x (Number b)) y (Number c)) z (Number d))
       \<and> (parses_expr [u, a, x, b] e \<longleftrightarrow> e = Binary (Unary u (Number a)) x (Number b))
       \<and> (wf_expr t \<and> Binary l x r \<in> set (subexprs t) \<longrightarrow> r \<noteq> Binary l' y r')
       \<and> (wf_expr t \<and> Unary u' r \<in> set (subexprs t) \<longrightarrow> r \<noteq> Binary l' x r')
       \<and> (wf_expr (Binary l x r) \<and> wf_expr m \<and> top_prec m = None \<longrightarrow>
            wf_expr (Binary (Binary l x r) y m))
       \<and> (wf_expr (Unary u m) \<and> wf_expr (Binary l x r) \<longrightarrow> wf_expr (Binary (Unary u m) x r))
       \<and> precedence_levels = [1, 2, 3, 4, 5, 6, 7, 8]
       \<and> 1 \<le> p \<and> p \<le> 7 \<and> unary_prec = 8"
proof -
  have prefixed: "parses_expr [u, a, x, b] e \<longleftrightarrow> e = Binary (Unary u (Number a)) x (Number b)"
  proof
    assume "parses_expr [u, a, x, b] e"
    then show "e = Binary (Unary u (Number a)) x (Number b)"
      using assms(4-6) by (simp add: parses_expr_def yield_prefixed)
  next
    assume "e = Binary (Unary u (Number a)) x (Number b)"
    with assms show "parses_expr [u, a, x, b] e"
      by (simp add: parses_expr_def left_operand_ok_def right_operand_ok_def)
  qed
  have range: "1 \<le> p" "p \<le> 7" using binary_prec_range [OF assms(1)] by simp_all
  have right: "r \<noteq> Binary l' y r'" if "wf_expr t" "Binary l x r \<in> set (subexprs t)"
  proof -
    from that have "wf_expr (Binary l x r)" by (rule wf_subexprs)
    with assms(1,2) show ?thesis by (auto simp: right_operand_ok_def)
  qed
  have unary: "r \<noteq> Binary l' x r'" if "wf_expr t" "Unary u' r \<in> set (subexprs t)"
  proof -
    from that have "wf_expr (Unary u' r)" by (rule wf_subexprs)
    with assms(1) range show ?thesis by (auto simp: right_operand_ok_def unary_prec_def)
  qed
  have left: "wf_expr (Binary (Binary l x r) y m)"
    if "wf_expr (Binary l x r)" "wf_expr m" "top_prec m = None"
    using that assms(1,2) by (simp add: left_operand_ok_def right_operand_ok_def)
  have operand: "wf_expr (Binary (Unary u m) x r)"
    if "wf_expr (Unary u m)" "wf_expr (Binary l x r)"
    using that assms(1) by (simp add: left_operand_ok_def)
  show ?thesis
    using parse_two_operators [OF assms(5-7) assms(1,2), of e]
      parse_three_operators [OF assms(5-8) assms(1-3), of e]
      prefixed range right unary left operand precedence_levels_eight
    by (simp add: unary_prec_def)
qed

theorem binary_left_associative_unary_tighter_witness:
  "binary_prec ''^'' = Some 3 \<and> ''-'' \<in> set unary_ops \<and> is_number ''2'' \<and> is_number ''3''
   \<and> parses_expr [''2'', ''^'', ''3'', ''^'', ''2'']
        (Binary (Binary (Number ''2'') ''^'' (Number ''3'')) ''^'' (Number ''2''))
   \<and> \<not> parses_expr [''2'', ''^'', ''3'', ''^'', ''2'']
        (Binary (Number ''2'') ''^'' (Binary (Number ''3'') ''^'' (Number ''2'')))
   \<and> parses_expr [''2'', ''^'', ''3'', ''^'', ''2'', ''^'', ''3'']
        (Binary (Binary (Binary (Number ''2'') ''^'' (Number ''3'')) ''^'' (Number ''2''))
           ''^'' (Number ''3''))
   \<and> parses_expr [''-'', ''2'', ''^'', ''3'']
        (Binary (Unary ''-'' (Number ''2'')) ''^'' (Number ''3''))
   \<and> \<not> parses_expr [''-'', ''2'', ''^'', ''3'']
        (Unary ''-'' (Binary (Number ''2'') ''^'' (Number ''3'')))
   \<and> wf_expr (Binary (Identifier ''a'') ''^'' (Identifier ''b''))
   \<and> wf_expr (Binary (Binary (Identifier ''a'') ''^'' (Identifier ''b'')) ''^'' (Identifier ''c''))
   \<and> wf_expr (Unary ''-'' (Identifier ''a''))
   \<and> wf_expr (Binary (Unary ''-'' (Identifier ''a'')) ''^'' (Identifier ''b''))"
proof -
  have n: "is_number ''2''" "is_number ''3''"
    by (simp_all add: is_number_def number_res_def Plus_def Opt_def digit_def)
  have p: "binary_prec ''^'' = Some 3" "''-'' \<in> set unary_ops"
    by (simp_all add: binary_prec_def binary_levels_def unary_ops_def)
  have i: "wf_expr (Identifier ''a'')" "wf_expr (Identifier ''b'')" "wf_expr (Identifier ''c'')"
    by (simp_all add: is_identifier_def identifier_re_def letters_def expression_keywords_def
        boolean_words_def)
  have ab: "wf_expr (Binary (Identifier ''a'') ''^'' (Identifier ''b''))"
    and ua: "wf_expr (Unary ''-'' (Identifier ''a''))"
    using i p by (simp_all add: left_operand_ok_def right_operand_ok_def)
  note inst = binary_left_associative_unary_tighter [OF p(1) p(1) p(1) p(2) n(1) n(2) n(1) n(2)]
  have "parses_expr [''2'', ''^'', ''3'', ''^'', ''2'']
        (Binary (Binary (Number ''2'') ''^'' (Number ''3'')) ''^'' (Number ''2''))"
    "\<not> parses_expr [''2'', ''^'', ''3'', ''^'', ''2'']
        (Binary (Number ''2'') ''^'' (Binary (Number ''3'') ''^'' (Number ''2'')))"
    "parses_expr [''2'', ''^'', ''3'', ''^'', ''2'', ''^'', ''3'']
        (Binary (Binary (Binary (Number ''2'') ''^'' (Number ''3'')) ''^'' (Number ''2''))
           ''^'' (Number ''3''))"
    "parses_expr [''-'', ''2'', ''^'', ''3'']
        (Binary (Unary ''-'' (Number ''2'')) ''^'' (Number ''3''))"
    "\<not> parses_expr [''-'', ''2'', ''^'', ''3'']
        (Unary ''-'' (Binary (Number ''2'') ''^'' (Number ''3'')))"
    using inst by simp_all
  moreover have
    "wf_expr (Binary (Binary (Identifier ''a'') ''^'' (Identifier ''b'')) ''^'' (Identifier ''c''))"
    using inst [where l = "Identifier ''a''" and r = "Identifier ''b''" and m = "Identifier ''c''"]
      ab i(3) by simp
  moreover have "wf_expr (Binary (Unary ''-'' (Identifier ''a'')) ''^'' (Identifier ''b''))"
    using inst [where l = "Identifier ''a''" and r = "Identifier ''b''" and m = "Identifier ''a''"]
      ab ua by simp
  ultimately show ?thesis using n p ab ua by simp
qed

section \<open>Leaves, spans and the source text\<close>

lemma starts_with_append: "starts_with l s \<Longrightarrow> l @ drop (length l) s = s"
  by (induction l s rule: starts_with.induct) auto

lemma scan_pieces:
  "scan q src ls = Some ps \<Longrightarrow>
     source_text ps = src
     \<and> map text_of (filter is_hidden ps) = between_quotes q ls
     \<and> (\<forall>p \<in> set ps. text_of p \<noteq> [])
     \<and> list_all gap_ok ps"
proof (induction q src ls arbitrary: ps rule: scan.induct)
  case (1 q ls)
  then show ?case by (simp add: source_text_def split: if_splits)
next
  case (2 q c cs ls)
  show ?case
  proof (cases "c \<in> set whitespace")
    case True
    with 2 show ?thesis by (auto simp: source_text_def)
  next
    case ws: False
    show ?thesis
    proof (cases "c = CHR 0x27
          \<and> (q \<or> (case ls of [] \<Rightarrow> True | l # ls' \<Rightarrow> l \<noteq> c # takeWhile in_line cs))")
      case True
      with ws 2(2)[OF ws True] "2.prems" show ?thesis
        by (auto simp: source_text_def)
    next
      case False
      with ws "2.prems" obtain l ls' where ls: "ls = l # ls'" by (cases ls) auto
      with ws False "2.prems" have l: "l \<noteq> []" "starts_with l (c # cs)"
        by (auto split: if_splits)
      from l starts_with_append have app: "l @ drop (length l) (c # cs) = c # cs" by blast
      from ws False ls l "2.prems" 2(3-5)[OF ws False ls] show ?thesis
        using app by (auto simp: source_text_def split: if_splits)
    qed
  qed
qed

lemma spans_cover:
  "concat (map (span_text (pre @ source_text ps)) (leaf_spans (length pre) ps))
     = concat (map text_of (filter is_leaf ps))"
proof (induction ps arbitrary: pre)
  case Nil
  show ?case by simp
next
  case (Cons p ps)
  from Cons [of "pre @ text_of p"] show ?case
    by (simp add: source_text_def span_text_def)
qed

lemma skipped_length:
  "length (concat (map text_of (filter is_leaf ps)))
     + length (concat (map text_of (filter (\<lambda>p. \<not> is_leaf p) ps)))
     = length (source_text ps)"
  by (induction ps) (simp_all add: source_text_def)

lemma all_leaves: "\<forall>p \<in> set ps. is_leaf p \<Longrightarrow> concat (map text_of (filter is_leaf ps)) = source_text ps"
  by (induction ps) (simp_all add: source_text_def)

lemma not_leaf: "\<not> is_leaf p \<longleftrightarrow> is_gap p \<or> is_hidden p"
  by (cases p) simp_all

lemma some_skipped:
  assumes "p \<in> set ps" "\<not> is_leaf p" "\<forall>p \<in> set ps. text_of p \<noteq> []"
  shows "concat (map text_of (filter is_leaf ps)) \<noteq> source_text ps"
proof -
  from assms(1,2) have "p \<in> set (filter (\<lambda>p. \<not> is_leaf p) ps)" by simp
  moreover from assms(1,3) have "text_of p \<noteq> []" by blast
  ultimately have "concat (map text_of (filter (\<lambda>p. \<not> is_leaf p) ps)) \<noteq> []"
    by (simp only: concat_eq_Nil_conv) force
  then have "0 < length (concat (map text_of (filter (\<lambda>p. \<not> is_leaf p) ps)))" by simp
  with skipped_length [of ps]
  have "length (concat (map text_of (filter is_leaf ps))) < length (source_text ps)"
    by linarith
  then show ?thesis by auto
qed

lemma not_quote:
  "is_identifier s \<Longrightarrow> s \<noteq> [CHR 0x22]"
  "is_number s \<Longrightarrow> s \<noteq> [CHR 0x22]"
  "is_boolean s \<Longrightarrow> s \<noteq> [CHR 0x22]"
  "is_type s \<Longrightarrow> s \<noteq> [CHR 0x22]"
  "is_string_piece s \<Longrightarrow> s \<noteq> [CHR 0x22]"
  "matches comment_re s \<Longrightarrow> s \<noteq> [CHR 0x22]"
  "binary_prec s = Some p \<Longrightarrow> s \<noteq> [CHR 0x22]"
  "s \<in> set unary_ops \<Longrightarrow> s \<noteq> [CHR 0x22]"
  "s \<in> set assignment_ops \<Longrightarrow> s \<noteq> [CHR 0x22]"
  by (auto simp: is_identifier_def identifier_re_def letters_def number_not_literal
      is_boolean_def boolean_words_def is_type_def type_names_def is_string_piece_def
      string_piece_res_def comment_re_def binary_prec_def binary_levels_def unary_ops_def
      assignment_ops_def)

lemma between_quotes_string:
  "list_all is_string_piece ps \<Longrightarrow>
     between_quotes True (ps @ [CHR 0x22] # rest) = ps @ between_quotes False rest"
  by (induction ps) (auto simp: not_quote)

lemma between_quotes_yield_string:
  "list_all is_string_piece ps \<Longrightarrow>
     between_quotes False (yield_string ps @ rest) = ps @ between_quotes False rest"
  by (simp add: yield_string_def between_quotes_string)

lemma between_quotes_commas:
  assumes "\<And>a rest. a \<in> set xs \<Longrightarrow> between_quotes False (f a @ rest) = g a @ between_quotes False rest"
  shows "between_quotes False (commas (map f xs) @ rest)
       = concat (map g xs) @ between_quotes False rest"
  using assms
proof (induction xs arbitrary: rest rule: induct_list012)
  case (3 x y zs)
  have "between_quotes False (commas (map f (y # zs)) @ rest)
      = concat (map g (y # zs)) @ between_quotes False rest"
    by (rule "3.IH"(2)) (simp add: "3.prems")
  with "3.prems" [of x] show ?case by simp
qed simp_all

lemma between_quotes_concat:
  assumes "\<And>a rest. a \<in> set xs \<Longrightarrow> between_quotes False (f a @ rest) = g a @ between_quotes False rest"
  shows "between_quotes False (concat (map f xs) @ rest)
       = concat (map g xs) @ between_quotes False rest"
  using assms by (induction xs) simp_all

lemma between_quotes_expr:
  "wf_expr e \<Longrightarrow>
     between_quotes False (yield_expr e @ rest) = contents_expr e @ between_quotes False rest"
proof (induction e arbitrary: rest)
  case (StringLit ps)
  then show ?case by (simp add: between_quotes_yield_string)
next
  case (Binary l op r)
  then show ?case by (auto simp: not_quote split: option.splits)
next
  case (Call f args)
  then have "between_quotes False (commas (map yield_expr args) @ rest')
       = concat (map contents_expr args) @ between_quotes False rest'" for rest'
    by (intro between_quotes_commas) (auto simp: list_all_iff)
  with Call.prems show ?case by (simp add: not_quote)
qed (auto simp: not_quote)

lemma between_quotes_body:
  assumes "\<And>t rest. t \<in> set body \<Longrightarrow> wf_stmt t \<Longrightarrow>
      between_quotes False (yield_stmt t @ rest) = contents_stmt t @ between_quotes False rest"
    and "list_all wf_stmt body"
  shows "between_quotes False (concat (map yield_stmt body) @ rest)
       = concat (map contents_stmt body) @ between_quotes False rest"
  by (rule between_quotes_concat) (use assms in \<open>auto simp: list_all_iff\<close>)

lemma between_quotes_params:
  "wf_params ps \<Longrightarrow> between_quotes False (yield_params ps @ rest) = between_quotes False rest"
proof (cases ps)
  case None
  then show ?thesis by simp
next
  case (Some xs)
  assume "wf_params ps"
  with Some have "between_quotes False (commas (map (\<lambda>p. [p]) xs) @ rest')
      = concat (map (\<lambda>p. []) xs) @ between_quotes False rest'" for rest'
    by (intro between_quotes_commas) (auto simp: list_all_iff not_quote)
  with Some show ?thesis by simp
qed

lemma between_quotes_elseifs:
  assumes "\<And>t rest. t \<in> set eifs \<Longrightarrow> wf_elseif t \<Longrightarrow>
      between_quotes False (yield_elseif t @ rest) = contents_elseif t @ between_quotes False rest"
    and "list_all wf_elseif eifs"
  shows "between_quotes False (concat (map yield_elseif eifs) @ rest)
       = concat (map contents_elseif eifs) @ between_quotes False rest"
  by (rule between_quotes_concat) (use assms in \<open>auto simp: list_all_iff\<close>)

lemma between_quotes_cases:
  assumes "\<And>t rest. t \<in> set cs \<Longrightarrow> wf_case t \<Longrightarrow>
      between_quotes False (yield_case t @ rest) = contents_case t @ between_quotes False rest"
    and "list_all wf_case cs"
  shows "between_quotes False (concat (map yield_case cs) @ rest)
       = concat (map contents_case cs) @ between_quotes False rest"
  by (rule between_quotes_concat) (use assms in \<open>auto simp: list_all_iff\<close>)

lemma between_quotes_args:
  "list_all wf_expr args \<Longrightarrow>
     between_quotes False (commas (map yield_expr args) @ rest)
       = concat (map contents_expr args) @ between_quotes False rest"
  by (rule between_quotes_commas) (auto simp: list_all_iff between_quotes_expr)

lemma between_quotes_menu_items:
  "list_all wf_menu_item items \<Longrightarrow>
     between_quotes False (concat (map yield_menu_item items) @ rest)
       = concat (map contents_menu_item items) @ between_quotes False rest"
proof (rule between_quotes_concat)
  fix a rest
  assume "list_all wf_menu_item items" "a \<in> set items"
  then have "wf_menu_item a" by (simp add: list_all_iff)
  then show "between_quotes False (yield_menu_item a @ rest)
      = contents_menu_item a @ between_quotes False rest"
    by (cases a) (simp add: between_quotes_yield_string not_quote)
qed

lemma between_quotes_const_table:
  "list_all (\<lambda>(x, e). is_identifier x \<and> wf_expr e) es \<Longrightarrow>
     between_quotes False (concat (map (\<lambda>(x, e). x # ''='' # yield_expr e) es) @ rest)
       = concat (map (\<lambda>(x, e). contents_expr e) es) @ between_quotes False rest"
  by (rule between_quotes_concat) (auto simp: list_all_iff between_quotes_expr not_quote)

lemma between_quotes_loop_tail:
  "wf_loop_tail t \<Longrightarrow>
     between_quotes False (yield_loop_tail t @ rest)
       = contents_loop_tail t @ between_quotes False rest"
  by (cases t) (simp_all add: between_quotes_expr)

lemma between_quotes_stmt:
  "wf_stmt t \<Longrightarrow>
     between_quotes False (yield_stmt t @ rest) = contents_stmt t @ between_quotes False rest"
  "wf_elseif ei \<Longrightarrow>
     between_quotes False (yield_elseif ei @ rest) = contents_elseif ei @ between_quotes False rest"
  "wf_case cc \<Longrightarrow>
     between_quotes False (yield_case cc @ rest) = contents_case cc @ between_quotes False rest"
proof (induction t and ei and cc arbitrary: rest and rest and rest
    rule: contents_stmt_contents_elseif_contents_case.induct)
qed (auto simp: not_quote between_quotes_expr between_quotes_yield_string between_quotes_body
      between_quotes_params between_quotes_elseifs between_quotes_cases between_quotes_args
      between_quotes_menu_items between_quotes_const_table between_quotes_loop_tail
      split: option.splits)

lemma between_quotes_source_file:
  "wf_source_file ts \<Longrightarrow> between_quotes False (yield_source_file ts) = string_contents ts"
  using between_quotes_body [of ts "[]"]
  by (simp add: wf_source_file_def yield_source_file_def string_contents_def
      between_quotes_stmt)

lemmas scan_eval = pieces_def leaves_def leaves_text_def span_text_def valid_input_def
  wf_source_file_def yield_source_file_def whitespace_def munch_ok_def in_line_def
  is_identifier_def identifier_re_def number_res_def Plus_def Opt_def digit_def letters_def
  literals_def keyword_literals_def boolean_words_def type_names_def symbol_literals_def
  is_string_piece_def string_piece_res_def yield_string_def string_contents_def
  plain_stmt_def reserved_words_def

text \<open>Cuts that the lexer does not make are no valid input.\<close>

lemma rejected_cuts:
  "\<not> valid_input (''CallTable'' @ [CHR 0x27] @ ''ct'') [CallTable ''t'']"
  "\<not> valid_input ''Dimx'' [VariableDeclaration ''Dim'' ''x'' None]"
  "scan False ''Else If'' [''Else'', ''If''] = None"
  "scan False [CHR 0x22, CHR 0x27, CHR 0x22] [[CHR 0x22], [CHR 0x27], [CHR 0x22]] = None"
  by (simp_all add: scan_eval)

text \<open>
  C3, as stated, fails: the white space between two lexemes is an extra that no leaf
  covers. The text \<^verbatim>\<open>Dim x\<close> is valid, its leaves are \<^verbatim>\<open>Dim\<close> at offsets 0 to 3 and \<^verbatim>\<open>x\<close> at
  offsets 4 to 5, and the texts of their spans concatenate to \<^verbatim>\<open>Dimx\<close>.
\<close>

theorem leaves_cover_counterexample:
  "valid_input ''Dim x'' [VariableDeclaration ''Dim'' ''x'' None]
   \<and> leaves ''Dim x'' [VariableDeclaration ''Dim'' ''x'' None] = Some [(0, 3), (4, 5)]
   \<and> leaves_text ''Dim x'' [VariableDeclaration ''Dim'' ''x'' None] = Some ''Dimx''
   \<and> leaves_text ''Dim x'' [VariableDeclaration ''Dim'' ''x'' None] \<noteq> Some ''Dim x''"
  by (simp add: scan_eval)


text \<open>
  C3, amended: for every valid input text, concatenating the source text covered by the
  spans of the leaves, in order, gives the source text without the white space skipped
  between tokens and without the contents of the string literals, whose tokens are
  hidden; comments are leaves and are kept. It gives back the source text exactly when no
  white space was skipped and every string literal is empty. (The pieces of the text are
  its leaves, the skipped white-space characters and the hidden tokens, and the hidden
  tokens are the string contents of the tree.)
\<close>

theorem leaves_cover_visible_text:
  assumes "valid_input src ts"
  shows "\<exists>ps. pieces src ts = Some ps
           \<and> source_text ps = src
           \<and> leaves src ts = Some (leaf_spans 0 ps)
           \<and> leaves_text src ts = Some (concat (map text_of (filter is_leaf ps)))
           \<and> list_all gap_ok ps
           \<and> map text_of (filter is_hidden ps) = string_contents ts
           \<and> (leaves_text src ts = Some src \<longleftrightarrow>
                \<not> list_ex is_gap ps \<and> string_contents ts = [])"
proof -
  from assms obtain ps where wf: "wf_source_file ts"
    and ps: "scan False src (yield_source_file ts) = Some ps"
    by (auto simp: valid_input_def pieces_def)
  from scan_pieces [OF ps] have src: "source_text ps = src"
    and hid: "map text_of (filter is_hidden ps) = between_quotes False (yield_source_file ts)"
    and ne: "\<forall>p \<in> set ps. text_of p \<noteq> []"
    and gap: "list_all gap_ok ps"
    by simp_all
  from hid wf have hidden: "map text_of (filter is_hidden ps) = string_contents ts"
    by (simp add: between_quotes_source_file)
  have covered: "leaves_text src ts = Some (concat (map text_of (filter is_leaf ps)))"
    using spans_cover [of "[]" ps] ps src by (simp add: leaves_text_def leaves_def pieces_def)
  have same: "concat (map text_of (filter is_leaf ps)) = src"
    if "\<not> list_ex is_gap ps" "string_contents ts = []"
  proof -
    from that(2) hidden have "filter is_hidden ps = []" by simp
    then have "\<not> is_hidden p" if "p \<in> set ps" for p
      using that by (simp add: filter_empty_conv)
    moreover from that(1) have "\<not> is_gap p" if "p \<in> set ps" for p
      using that by (simp add: list_ex_iff)
    ultimately have "\<forall>p \<in> set ps. is_leaf p"
      using not_leaf by blast
    from all_leaves [OF this] src show ?thesis by simp
  qed
  have differ: "concat (map text_of (filter is_leaf ps)) \<noteq> src"
    if "list_ex is_gap ps \<or> string_contents ts \<noteq> []"
  proof -
    have "\<exists>p \<in> set ps. is_gap p \<or> is_hidden p"
    proof (cases "list_ex is_gap ps")
      case True
      then show ?thesis by (auto simp: list_ex_iff)
    next
      case False
      with that have "string_contents ts \<noteq> []" by simp
      with hidden have "filter is_hidden ps \<noteq> []" by auto
      then obtain p where "p \<in> set (filter is_hidden ps)"
        by (cases "filter is_hidden ps") auto
      then show ?thesis by auto
    qed
    then obtain p where "p \<in> set ps" "\<not> is_leaf p" using not_leaf by blast
    from some_skipped [OF this ne] src show ?thesis by simp
  qed
  have exact: "leaves_text src ts = Some src \<longleftrightarrow>
      \<not> list_ex is_gap ps \<and> string_contents ts = []"
    unfolding covered using same differ by blast
  have "pieces src ts = Some ps" "leaves src ts = Some (leaf_spans 0 ps)"
    using ps by (simp_all add: pieces_def leaves_def)
  with src covered gap hidden exact show ?thesis by blast
qed

theorem leaves_cover_witness:
  "valid_input ''Dim x'' [VariableDeclaration ''Dim'' ''x'' None]
   \<and> leaves_text ''Dim x'' [VariableDeclaration ''Dim'' ''x'' None] = Some ''Dimx''
   \<and> valid_input (''Include'' @ [CHR 0x22] @ ''ab'' @ [CHR 0x22]) [Include [''a'', ''b'']]
   \<and> leaves (''Include'' @ [CHR 0x22] @ ''ab'' @ [CHR 0x22]) [Include [''a'', ''b'']]
       = Some [(0, 7), (7, 8), (10, 11)]
   \<and> string_contents [Include [''a'', ''b'']] = [''a'', ''b'']"
proof -
  have v: "valid_input ''Dim x'' [VariableDeclaration ''Dim'' ''x'' None]"
    "valid_input (''Include'' @ [CHR 0x22] @ ''ab'' @ [CHR 0x22]) [Include [''a'', ''b'']]"
    by (simp_all add: scan_eval)
  have e: "pieces ''Dim x'' [VariableDeclaration ''Dim'' ''x'' None]
      = Some [Leaf ''Dim'', Gap CHR '' '', Leaf ''x'']"
    "pieces (''Include'' @ [CHR 0x22] @ ''ab'' @ [CHR 0x22]) [Include [''a'', ''b'']]
      = Some [Leaf ''Include'', Leaf [CHR 0x22], Hidden ''a'', Hidden ''b'', Leaf [CHR 0x22]]"
    by (simp_all add: scan_eval)
  from leaves_cover_visible_text [OF v(1)] obtain ps where
    "pieces ''Dim x'' [VariableDeclaration ''Dim'' ''x'' None] = Some ps"
    "leaves_text ''Dim x'' [VariableDeclaration ''Dim'' ''x'' None]
       = Some (concat (map text_of (filter is_leaf ps)))"
    by blast
  with e(1) have 1: "leaves_text ''Dim x'' [VariableDeclaration ''Dim'' ''x'' None] = Some ''Dimx''"
    by simp
  from leaves_cover_visible_text [OF v(2)] obtain qs where
    "pieces (''Include'' @ [CHR 0x22] @ ''ab'' @ [CHR 0x22]) [Include [''a'', ''b'']] = Some qs"
    "leaves (''Include'' @ [CHR 0x22] @ ''ab'' @ [CHR 0x22]) [Include [''a'', ''b'']]
       = Some (leaf_spans 0 qs)"
    "map text_of (filter is_hidden qs) = string_contents [Include [''a'', ''b'']]"
    by blast
  with e(2) have 2:
    "leaves (''Include'' @ [CHR 0x22] @ ''ab'' @ [CHR 0x22]) [Include [''a'', ''b'']]
       = Some [(0, 7), (7, 8), (10, 11)]"
    "string_contents [Include [''a'', ''b'']] = [''a'', ''b'']"
    by auto
  from v 1 2 show ?thesis by blast
qed

section \<open>Statements by their first keyword\<close>

lemma not_identifier_punct:
  "\<not> is_identifier ''(''" "\<not> is_identifier '')''" "\<not> is_identifier '',''" "\<not> is_identifier ''=''"
  by (simp_all add: is_identifier_def identifier_re_def letters_def)

lemma statement_keywords_are_keywords: "set statement_keywords \<subseteq> set keyword_literals"
  by (simp add: statement_keywords_def keyword_literals_def)

lemma variable_declaration_inversion:
  assumes "wf_stmt t" "yield_stmt t = kw # rest" "kw \<in> set [''Dim'', ''Public'']"
  shows "\<exists>x ty. t = VariableDeclaration kw x ty"
  using assms
  by (cases t) (auto simp: statement_keywords_def comment_re_def)

lemma data_table_inversion:
  assumes "wf_stmt t" "yield_stmt t = ''DataTable'' # rest"
  shows "\<exists>x b e body. t = DataTable x b e body"
  using assms
  by (cases t) (auto simp: statement_keywords_def comment_re_def)

lemma call_table_inversion:
  assumes "wf_stmt t" "yield_stmt t = ''CallTable'' # rest"
  shows "\<exists>x. t = CallTable x"
  using assms
  by (cases t) (auto simp: statement_keywords_def comment_re_def)

lemma display_menu_inversion:
  assumes "wf_stmt t" "yield_stmt t = ''DisplayMenu'' # rest"
  shows "\<exists>items. t = DisplayMenu items"
  using assms
  by (cases t) (auto simp: statement_keywords_def comment_re_def)

lemma sub_menu_inversion:
  assumes "wf_stmt t" "yield_stmt t = ''SubMenu'' # rest"
  shows "\<exists>x items. t = SubMenu x items"
  using assms
  by (cases t) (auto simp: statement_keywords_def comment_re_def)

text \<open>
  A statement that starts with \<^verbatim>\<open>BeginProg\<close> ends with \<^verbatim>\<open>EndProg\<close>: the grammar has no tree
  for a program block left open. What is reported for such a text, and which tree is
  returned, is decided by the error recovery of the parser runtime, not by the grammar.
\<close>

lemma begin_prog_closed:
  assumes "parses_stmt (''BeginProg'' # rest) t"
  shows "\<exists>body. t = BeginProg body \<and> rest = concat (map yield_stmt body) @ [''EndProg'']"
proof -
  from assms have t: "wf_stmt t" "yield_stmt t = ''BeginProg'' # rest"
    by (simp_all add: parses_stmt_def)
  then have "\<exists>body. t = BeginProg body"
    by (cases t) (auto simp: statement_keywords_def comment_re_def)
  with t show ?thesis by auto
qed

text \<open>
  C10: a statement that starts with \<^verbatim>\<open>Dim\<close> or \<^verbatim>\<open>Public\<close> is a \<^verbatim>\<open>variable_declaration\<close>
  and consists of that keyword, one identifier and, optionally, \<^verbatim>\<open>As\<close> and one of the
  thirteen names of \<^verbatim>\<open>type\<close>, and nothing else: no comma, no parenthesis, no \<^verbatim>\<open>=\<close>.
\<close>

theorem variable_declaration_shape:
  assumes "parses_stmt (kw # rest) t" "kw \<in> set [''Dim'', ''Public'']"
  shows "(\<exists>x. is_identifier x
           \<and> (t = VariableDeclaration kw x None \<and> rest = [x]
              \<or> (\<exists>ty \<in> set type_names. t = VariableDeclaration kw x (Some ty)
                    \<and> rest = [x, ''As'', ty])))
       \<and> set rest \<inter> set ['','', ''('', '')'', ''=''] = {}
       \<and> length type_names = 13 \<and> distinct type_names"
proof -
  from assms have t: "wf_stmt t" "yield_stmt t = kw # rest" by (simp_all add: parses_stmt_def)
  from variable_declaration_inversion [OF t assms(2)]
  obtain x ty where d: "t = VariableDeclaration kw x ty" by blast
  with t have x: "is_identifier x" by simp
  have shape: "t = VariableDeclaration kw x None \<and> rest = [x]
      \<or> (\<exists>n \<in> set type_names. t = VariableDeclaration kw x (Some n) \<and> rest = [x, ''As'', n])"
    using d t by (cases ty) (auto simp: is_type_def)
  from x have "x \<notin> set ['','', ''('', '')'', ''='']"
    by (auto simp: not_identifier_punct)
  with shape have "set rest \<inter> set ['','', ''('', '')'', ''=''] = {}"
    by (auto simp: type_names_def)
  moreover have "length type_names = 13" "distinct type_names"
    by (simp_all add: type_names_def)
  ultimately show ?thesis using x shape by blast
qed

theorem variable_declaration_shape_witness:
  "parses_stmt [''Dim'', ''x'', ''As'', ''Float''] (VariableDeclaration ''Dim'' ''x'' (Some ''Float''))
   \<and> parses_stmt [''Public'', ''y''] (VariableDeclaration ''Public'' ''y'' None)
   \<and> \<not> parses_stmt [''Dim'', ''x'', '','', ''y''] (VariableDeclaration ''Dim'' ''x'' None)
   \<and> set [''x'', ''As'', ''Float''] \<inter> set ['','', ''('', '')'', ''=''] = {}"
proof -
  have p: "parses_stmt [''Dim'', ''x'', ''As'', ''Float'']
      (VariableDeclaration ''Dim'' ''x'' (Some ''Float''))"
    "parses_stmt [''Public'', ''y''] (VariableDeclaration ''Public'' ''y'' None)"
    by (simp_all add: parses_stmt_def is_identifier_def identifier_re_def letters_def
        is_type_def type_names_def)
  show ?thesis
    using p variable_declaration_shape [OF p(1)] variable_declaration_shape [OF p(2)]
    by (simp add: parses_stmt_def)
qed

text \<open>
  C7, as stated, fails: the header of \<^verbatim>\<open>DataTable\<close> has no parentheses and no commas, and
  \<^verbatim>\<open>CallTable\<close> takes a bare identifier. \<^verbatim>\<open>DataTable Test True 100 EndTable\<close> and
  \<^verbatim>\<open>CallTable Test\<close> are statements; \<^verbatim>\<open>DataTable(Test, True, 100) EndTable\<close> and
  \<^verbatim>\<open>CallTable(Test)\<close> are not.
\<close>

theorem table_structure_counterexample:
  "parses_stmt [''DataTable'', ''Test'', ''True'', ''100'', ''EndTable'']
     (DataTable ''Test'' ''True'' (Number ''100'') [])
   \<and> \<not> (\<exists>t. parses_stmt
          [''DataTable'', ''('', ''Test'', '','', ''True'', '','', ''100'', '')'', ''EndTable''] t)
   \<and> parses_stmt [''CallTable'', ''Test''] (CallTable ''Test'')
   \<and> \<not> (\<exists>t. parses_stmt [''CallTable'', ''('', ''Test'', '')''] t)"
proof -
  have "parses_stmt [''DataTable'', ''Test'', ''True'', ''100'', ''EndTable'']
     (DataTable ''Test'' ''True'' (Number ''100'') [])"
    "parses_stmt [''CallTable'', ''Test''] (CallTable ''Test'')"
    by (simp_all add: parses_stmt_def is_identifier_def identifier_re_def letters_def
        is_boolean_def boolean_words_def is_number_def number_res_def Plus_def Opt_def digit_def)
  moreover have False
    if "parses_stmt
      [''DataTable'', ''('', ''Test'', '','', ''True'', '','', ''100'', '')'', ''EndTable''] t" for t
  proof -
    from that have t: "wf_stmt t" "yield_stmt t =
      ''DataTable'' # [''('', ''Test'', '','', ''True'', '','', ''100'', '')'', ''EndTable'']"
      by (simp_all add: parses_stmt_def)
    from data_table_inversion [OF t] obtain x b e body where "t = DataTable x b e body" by blast
    with t show False by (simp add: not_identifier_punct)
  qed
  moreover have False if "parses_stmt [''CallTable'', ''('', ''Test'', '')''] t" for t
  proof -
    from that have t: "wf_stmt t" "yield_stmt t = ''CallTable'' # [''('', ''Test'', '')'']"
      by (simp_all add: parses_stmt_def)
    from call_table_inversion [OF t] obtain x where "t = CallTable x" by blast
    with t show False by simp
  qed
  ultimately show ?thesis by blast
qed

text \<open>
  C7, amended: a \<^verbatim>\<open>DataTable\<close> statement consists of the keyword \<^verbatim>\<open>DataTable\<close> followed
  directly by an identifier (the name), a boolean literal (the trigger) and an expression
  (the size), with no parentheses around them and no commas between them, then a statement
  body, then \<^verbatim>\<open>EndTable\<close>; a \<^verbatim>\<open>CallTable\<close> statement is the keyword \<^verbatim>\<open>CallTable\<close> followed by
  one bare identifier.
\<close>

theorem table_structure_shape:
  "(parses_stmt (''DataTable'' # rest) t \<longrightarrow>
      (\<exists>x b e body. t = DataTable x b e body \<and> is_identifier x \<and> is_boolean b \<and> wf_expr e
         \<and> list_all wf_stmt body \<and> x \<noteq> ''('' \<and> b \<noteq> '',''
         \<and> rest = x # b # yield_expr e @ concat (map yield_stmt body) @ [''EndTable'']))
   \<and> (parses_stmt (''CallTable'' # rest) t \<longrightarrow>
      (\<exists>x. t = CallTable x \<and> is_identifier x \<and> x \<noteq> ''('' \<and> rest = [x]))"
proof (intro conjI impI)
  assume "parses_stmt (''DataTable'' # rest) t"
  then have t: "wf_stmt t" "yield_stmt t = ''DataTable'' # rest" by (simp_all add: parses_stmt_def)
  from data_table_inversion [OF t] obtain x b e body where "t = DataTable x b e body" by blast
  with t show "\<exists>x b e body. t = DataTable x b e body \<and> is_identifier x \<and> is_boolean b \<and> wf_expr e
         \<and> list_all wf_stmt body \<and> x \<noteq> ''('' \<and> b \<noteq> '',''
         \<and> rest = x # b # yield_expr e @ concat (map yield_stmt body) @ [''EndTable'']"
    by (auto simp: not_identifier_punct is_boolean_def boolean_words_def)
next
  assume "parses_stmt (''CallTable'' # rest) t"
  then have t: "wf_stmt t" "yield_stmt t = ''CallTable'' # rest" by (simp_all add: parses_stmt_def)
  from call_table_inversion [OF t] obtain x where "t = CallTable x" by blast
  with t show "\<exists>x. t = CallTable x \<and> is_identifier x \<and> x \<noteq> ''('' \<and> rest = [x]"
    by (auto simp: not_identifier_punct)
qed

theorem table_structure_shape_witness:
  "parses_stmt [''DataTable'', ''Test'', ''True'', ''100'', ''EndTable'']
     (DataTable ''Test'' ''True'' (Number ''100'') [])
   \<and> parses_stmt [''CallTable'', ''Test''] (CallTable ''Test'')
   \<and> is_identifier ''Test'' \<and> is_boolean ''True'' \<and> wf_expr (Number ''100'')"
proof -
  have p: "parses_stmt (''DataTable'' # [''Test'', ''True'', ''100'', ''EndTable''])
     (DataTable ''Test'' ''True'' (Number ''100'') [])"
    "parses_stmt (''CallTable'' # [''Test'']) (CallTable ''Test'')"
    by (simp_all add: parses_stmt_def is_identifier_def identifier_re_def letters_def
        is_boolean_def boolean_words_def is_number_def number_res_def Plus_def Opt_def digit_def)
  show ?thesis
    using p
      table_structure_shape [of "[''Test'', ''True'', ''100'', ''EndTable'']"
        "DataTable ''Test'' ''True'' (Number ''100'') []"]
      table_structure_shape [of "[''Test'']" "CallTable ''Test''"]
    by auto
qed

text \<open>
  C9, as stated, fails for \<^verbatim>\<open>SubMenu\<close>: an identifier is required after the keyword, so
  \<^verbatim>\<open>SubMenu EndSubMenu\<close> is no statement, while \<^verbatim>\<open>SubMenu Settings EndSubMenu\<close> and
  \<^verbatim>\<open>DisplayMenu EndMenu\<close> are.
\<close>

theorem menu_structure_counterexample:
  "\<not> (\<exists>t. parses_stmt [''SubMenu'', ''EndSubMenu''] t)
   \<and> parses_stmt [''SubMenu'', ''Settings'', ''EndSubMenu''] (SubMenu ''Settings'' [])
   \<and> parses_stmt [''DisplayMenu'', ''EndMenu''] (DisplayMenu [])"
proof -
  have False if "parses_stmt [''SubMenu'', ''EndSubMenu''] t" for t
  proof -
    from that have t: "wf_stmt t" "yield_stmt t = ''SubMenu'' # [''EndSubMenu'']"
      by (simp_all add: parses_stmt_def)
    from sub_menu_inversion [OF t] obtain x items where "t = SubMenu x items" by blast
    with t show False by simp
  qed
  moreover have "parses_stmt [''SubMenu'', ''Settings'', ''EndSubMenu''] (SubMenu ''Settings'' [])"
    "parses_stmt [''DisplayMenu'', ''EndMenu''] (DisplayMenu [])"
    by (simp_all add: parses_stmt_def is_identifier_def identifier_re_def letters_def)
  ultimately show ?thesis by blast
qed

text \<open>
  C9, amended: \<^verbatim>\<open>DisplayMenu\<close> is followed by zero or more \<^verbatim>\<open>MenuItem\<close> entries and
  \<^verbatim>\<open>EndMenu\<close>, with nothing else between them; \<^verbatim>\<open>SubMenu\<close> is followed by one required
  identifier, then zero or more \<^verbatim>\<open>MenuItem\<close> entries and \<^verbatim>\<open>EndSubMenu\<close>. A \<^verbatim>\<open>MenuItem\<close>
  entry is the keyword, a string and an identifier.
\<close>

theorem menu_structure_shape:
  "(parses_stmt (''DisplayMenu'' # rest) t \<longrightarrow>
      (\<exists>items. t = DisplayMenu items \<and> list_all wf_menu_item items
         \<and> rest = concat (map yield_menu_item items) @ [''EndMenu'']))
   \<and> (parses_stmt (''SubMenu'' # rest) t \<longrightarrow>
      (\<exists>x items. t = SubMenu x items \<and> is_identifier x \<and> list_all wf_menu_item items
         \<and> rest = x # concat (map yield_menu_item items) @ [''EndSubMenu'']))
   \<and> (wf_menu_item (MenuItem s y) \<longrightarrow>
        list_all is_string_piece s \<and> is_identifier y
         \<and> yield_menu_item (MenuItem s y) = ''MenuItem'' # [CHR 0x22] # s @ [[CHR 0x22], y])"
proof (intro conjI impI)
  assume "parses_stmt (''DisplayMenu'' # rest) t"
  then have t: "wf_stmt t" "yield_stmt t = ''DisplayMenu'' # rest"
    by (simp_all add: parses_stmt_def)
  from display_menu_inversion [OF t] obtain items where "t = DisplayMenu items" by blast
  with t show "\<exists>items. t = DisplayMenu items \<and> list_all wf_menu_item items
         \<and> rest = concat (map yield_menu_item items) @ [''EndMenu'']"
    by auto
next
  assume "parses_stmt (''SubMenu'' # rest) t"
  then have t: "wf_stmt t" "yield_stmt t = ''SubMenu'' # rest"
    by (simp_all add: parses_stmt_def)
  from sub_menu_inversion [OF t] obtain x items where "t = SubMenu x items" by blast
  with t show "\<exists>x items. t = SubMenu x items \<and> is_identifier x \<and> list_all wf_menu_item items
         \<and> rest = x # concat (map yield_menu_item items) @ [''EndSubMenu'']"
    by auto
qed (simp_all add: yield_string_def)




theorem menu_structure_shape_witness:
  "parses_stmt [''DisplayMenu'', ''MenuItem'', [CHR 0x22], ''a'', [CHR 0x22], ''v'', ''EndMenu'']
     (DisplayMenu [MenuItem [''a''] ''v''])
   \<and> parses_stmt [''SubMenu'', ''Settings'', ''EndSubMenu''] (SubMenu ''Settings'' [])
   \<and> wf_menu_item (MenuItem [''a''] ''v'')
   \<and> yield_menu_item (MenuItem [''a''] ''v'') = [''MenuItem'', [CHR 0x22], ''a'', [CHR 0x22], ''v'']"
proof -
  have p: "parses_stmt
      (''DisplayMenu'' # [''MenuItem'', [CHR 0x22], ''a'', [CHR 0x22], ''v'', ''EndMenu''])
      (DisplayMenu [MenuItem [''a''] ''v''])"
    "parses_stmt (''SubMenu'' # [''Settings'', ''EndSubMenu'']) (SubMenu ''Settings'' [])"
    "wf_menu_item (MenuItem [''a''] ''v'')"
    by (simp_all add: parses_stmt_def is_identifier_def identifier_re_def letters_def
        yield_string_def is_string_piece_def string_piece_res_def)
  note shape = menu_structure_shape
      [of "[''MenuItem'', [CHR 0x22], ''a'', [CHR 0x22], ''v'', ''EndMenu'']"
        "DisplayMenu [MenuItem [''a''] ''v'']" "[''a'']" "''v''"]
  from shape p(1) have "list_all wf_menu_item [MenuItem [''a''] ''v'']" by blast
  moreover from shape p(3) have "yield_menu_item (MenuItem [''a''] ''v'')
      = ''MenuItem'' # [CHR 0x22] # [''a''] @ [[CHR 0x22], ''v'']" by blast
  ultimately show ?thesis using p by simp
qed

text \<open>
  C8, as stated, fails: the grammar does not compare the identifier after \<^verbatim>\<open>Next\<close> with
  the loop variable. \<^verbatim>\<open>For i = 1 To 10 Step 2 x = i Next j\<close> parses without any error.
\<close>

theorem for_loop_mismatch_counterexample:
  "''j'' \<noteq> ''i'' \<and> ''j'' \<notin> set reserved_words
   \<and> plain_stmt (ForLoop ''i'' (Number ''1'') (Number ''10'') (Some (Number ''2''))
          [Assignment ''x'' ''='' (Identifier ''i'')] (Some ''j''))
   \<and> parses_stmt
       [''For'', ''i'', ''='', ''1'', ''To'', ''10'', ''Step'', ''2'', ''x'', ''='', ''i'', ''Next'', ''j'']
       (ForLoop ''i'' (Number ''1'') (Number ''10'') (Some (Number ''2''))
          [Assignment ''x'' ''='' (Identifier ''i'')] (Some ''j''))"
  by (simp add: parses_stmt_def is_identifier_def identifier_re_def letters_def
      is_number_def number_res_def Plus_def Opt_def digit_def statement_keywords_def
      assignment_ops_def expression_keywords_def boolean_words_def plain_stmt_def
      reserved_words_def keyword_literals_def type_names_def)

text \<open>
  C8, amended: for every For loop (with identifiers that are spelled like no keyword)
  whose closing \<^verbatim>\<open>Next\<close> carries an identifier that differs from the loop variable, the
  parse has no error and gives a complete \<^verbatim>\<open>for_loop\<close> node with that identifier as
  \<^verbatim>\<open>variable_end\<close>, just as it does with the matching name: the grammar does not compare
  the two names. An identifier after \<^verbatim>\<open>Next\<close> is always taken as \<^verbatim>\<open>variable_end\<close>, never as
  the start of the next statement.
\<close>

theorem for_loop_variable_end_unchecked:
  assumes "wf_stmt (ForLoop v a b st body None)" "plain_stmt (ForLoop v a b st body None)"
    and "is_identifier w" "w \<notin> set reserved_words" "w \<noteq> v"
  shows "parses_stmt (yield_stmt (ForLoop v a b st body None) @ [w])
           (ForLoop v a b st body (Some w))
       \<and> plain_stmt (ForLoop v a b st body (Some w))
       \<and> parses_stmt (yield_stmt (ForLoop v a b st body None) @ [v])
           (ForLoop v a b st body (Some v))
       \<and> \<not> wf_source_file [ForLoop v a b st body None, Assignment w op e]"
proof -
  have "x \<notin> set statement_keywords" if "x \<notin> set reserved_words" for x
    using that statement_keywords_are_keywords by (auto simp: reserved_words_def)
  moreover from assms(2) have "v \<notin> set reserved_words" by (simp add: plain_stmt_def)
  ultimately show ?thesis
    using assms by (simp add: parses_stmt_def wf_source_file_def goes_on_def plain_stmt_def)
qed

theorem for_loop_variable_end_unchecked_witness:
  "wf_stmt (ForLoop ''i'' (Number ''1'') (Number ''10'') None [] None)
   \<and> plain_stmt (ForLoop ''i'' (Number ''1'') (Number ''10'') None [] None)
   \<and> is_identifier ''j'' \<and> ''j'' \<notin> set reserved_words \<and> ''j'' \<noteq> ''i''
   \<and> parses_stmt [''For'', ''i'', ''='', ''1'', ''To'', ''10'', ''Next'', ''j'']
       (ForLoop ''i'' (Number ''1'') (Number ''10'') None [] (Some ''j''))
   \<and> parses_stmt [''For'', ''i'', ''='', ''1'', ''To'', ''10'', ''Next'', ''i'']
       (ForLoop ''i'' (Number ''1'') (Number ''10'') None [] (Some ''i''))"
proof -
  have h: "wf_stmt (ForLoop ''i'' (Number ''1'') (Number ''10'') None [] None)"
    "plain_stmt (ForLoop ''i'' (Number ''1'') (Number ''10'') None [] None)"
    "is_identifier ''j''" "''j'' \<notin> set reserved_words" "''j'' \<noteq> ''i''"
    by (simp_all add: is_identifier_def identifier_re_def letters_def
      is_number_def number_res_def Plus_def Opt_def digit_def plain_stmt_def reserved_words_def
      keyword_literals_def boolean_words_def type_names_def)
  show ?thesis
    using h for_loop_variable_end_unchecked [OF h] by simp
qed

end
